theory Spec2Isabelle
  imports Main
begin

section \<open>The end-to-end CI script \<^verbatim>\<open>scripts/run-ci-e2e-tests.js\<close>\<close>

text \<open>
  The script is a straight line of external commands inside one \<^verbatim>\<open>try\<close> block, a
  \<^verbatim>\<open>finally\<close> block that kills the background processes, and a call of \<^verbatim>\<open>exit\<close>.
  Its only inputs are the command-line flags and what the outside world answers: the exit
  code of every command it runs and the process identifier of every process it spawns.
  The model threads a state record through the script; the record holds the three
  module-level variables of the script, the pending exception, and the history of
  everything the script did to the outside world, in order.
\<close>

subsection \<open>Commands, events and the outside world\<close>

text \<open>
  One constructor for each command line the script passes to \<^verbatim>\<open>exec\<close>:
  \<^item> \<open>Mktemp\<close>: \<^verbatim>\<open>mktemp -d /tmp/react-native-XXXXXXXX\<close> (line 33)
  \<^item> \<open>YarnGlobalAddCli\<close>: \<^verbatim>\<open>yarn global add react-native-cli\<close> (47)
  \<^item> \<open>GradlewInstallArchives\<close>: \<^verbatim>\<open>./gradlew :ReactAndroid:installArchives ...\<close> (58)
  \<^item> \<open>NpmInstallFlowBin\<close>: \<^verbatim>\<open>npm install --save-dev flow-bin\<close> (71)
  \<^item> \<open>Sleep10\<close>, \<open>Sleep15\<close>: \<^verbatim>\<open>sleep 10s\<close>, \<^verbatim>\<open>sleep 15s\<close>
  \<^item> \<open>NpmPack\<close>: \<^verbatim>\<open>npm pack\<close> (84)
  \<^item> \<open>RnInit\<close>: \<^verbatim>\<open>react-native init EndToEndTest --version PACKAGE --npm\<close> (97)
  \<^item> \<open>NpmInstallPackage\<close>: \<^verbatim>\<open>npm install PACKAGE\<close> (120)
  \<^item> \<open>NpmInstall\<close>: \<^verbatim>\<open>npm install\<close> (125)
  \<^item> \<open>YarnAddAppium\<close>: \<^verbatim>\<open>yarn add --dev appium@1.11.1 mocha@2.4.5 ...\<close> (144)
  \<^item> \<open>GradlewCopyDeps\<close>: \<^verbatim>\<open>./gradlew :app:copyDownloadableDepsToLibs\<close> (158)
  \<^item> \<open>RmKeystore\<close>: \<^verbatim>\<open>rm android/app/debug.keystore\<close> (161)
  \<^item> \<open>Keytool\<close>: \<^verbatim>\<open>keytool -genkey -v -keystore android/app/debug.keystore ...\<close> (164)
  \<^item> \<open>RnRunAndroid\<close>: \<^verbatim>\<open>react-native run-android\<close> (177)
  \<^item> \<open>Mocha\<close>: \<^verbatim>\<open>node node_modules/.bin/_mocha android-e2e-test.js\<close> (195)
  \<^item> \<open>CurlWarmup\<close>: the \<^verbatim>\<open>curl\<close> request to \<^verbatim>\<open>localhost:8081/index.bundle\<close> (223)
  \<^item> \<open>PodInstall\<close>: \<^verbatim>\<open>pod install\<close> (227)
  \<^item> \<open>Xcodebuild destination scheme sdk iosTestType\<close>: the \<^verbatim>\<open>xcodebuild ... test\<close> pipeline
    of lines 242 to 265, with the four values it interpolates
  \<^item> \<open>BundleAndroid\<close>, \<open>BundleIos\<close>: the two \<^verbatim>\<open>react-native bundle\<close> calls (285, 295)
  \<^item> \<open>FlowCheck\<close>: \<^verbatim>\<open>ROOT/node_modules/.bin/flow check\<close> (303)
  \<^item> \<open>Kill9 pid\<close>: \<^verbatim>\<open>kill -9 pid\<close> (313, 320)
  \<^item> \<open>LsofKill8081\<close>: \<^verbatim>\<open>lsof -i tcp:8081 | awk 'NR!=1 {print $2}' | xargs kill\<close> (316)
\<close>

datatype cmd =
    Mktemp
  | YarnGlobalAddCli
  | GradlewInstallArchives
  | NpmInstallFlowBin
  | Sleep10
  | Sleep15
  | NpmPack
  | RnInit
  | NpmInstallPackage
  | NpmInstall
  | YarnAddAppium
  | GradlewCopyDeps
  | RmKeystore
  | Keytool
  | RnRunAndroid
  | Mocha
  | CurlWarmup
  | PodInstall
  | Xcodebuild string string string string
  | BundleAndroid
  | BundleIos
  | FlowCheck
  | Kill9 nat
  | LsofKill8081

text \<open>
  The three calls of \<^verbatim>\<open>spawn\<close>: the appium server (line 173), the packager of the
  android branch (\<^verbatim>\<open>yarn start --max-workers 1\<close>, line 185) and the packager of the
  ios/tvos branch (\<^verbatim>\<open>yarn start\<close> with \<^verbatim>\<open>REACT_NATIVE_MAX_WORKERS = 1\<close>, line 215).
\<close>

datatype prog = Appium | PackagerAndroid | PackagerIos

text \<open>
  A template string is a list of its parts: literal text, and a process identifier
  variable (which prints as \<^verbatim>\<open>undefined\<close> while it is not set).
\<close>

datatype part = Lit string | Pid "nat option"

datatype event =
    Exec cmd int              \<comment> \<open>a command run to completion, and its exit code\<close>
  | Spawn prog "nat option"   \<comment> \<open>a detached child, and the \<^verbatim>\<open>pid\<close> of the returned object\<close>
  | Echo "part list"
  | Cd string
  | Cp string string
  | Rm string string

text \<open>
  The outside world answers from the history so far: the exit code of a command, and the
  \<^verbatim>\<open>pid\<close> field of a spawned child (\<open>None\<close> is JavaScript's \<^verbatim>\<open>undefined\<close>, what the
  field holds when the child could not be started).
\<close>

record world =
  exec_code :: "event list \<Rightarrow> cmd \<Rightarrow> int"
  spawn_pid :: "event list \<Rightarrow> prog \<Rightarrow> nat option"

text \<open>
  The flags of \<^verbatim>\<open>yargs\<close>. The script only tests the target flags for truth; the value
  of \<^verbatim>\<open>--retries\<close> is a number, or absent.
\<close>

record argv =
  android :: bool
  ios :: bool
  tvos :: bool
  js :: bool
  skip_cli_install :: bool
  retries :: "int option"

text \<open>
  The variables \<^verbatim>\<open>SERVER_PID\<close>, \<^verbatim>\<open>APPIUM_PID\<close> and \<^verbatim>\<open>exitCode\<close> of lines 35 to 37
  (declared without a value), the history, and whether an \<^verbatim>\<open>Error\<close> has been thrown.
\<close>

record state =
  trace :: "event list"
  SERVER_PID :: "nat option"
  APPIUM_PID :: "nat option"
  exitCode :: "int option"
  thrown :: bool

definition init :: state where
  "init = \<lparr>trace = [], SERVER_PID = None, APPIUM_PID = None, exitCode = None, thrown = False\<rparr>"

definition emit :: "event \<Rightarrow> state \<Rightarrow> state" where
  "emit e s = s\<lparr>trace := trace s @ [e]\<rparr>"

definition exec :: "world \<Rightarrow> cmd \<Rightarrow> state \<Rightarrow> int \<times> state" where
  "exec w c s = (let k = exec_code w (trace s) c in (k, emit (Exec c k) s))"

definition exec' :: "world \<Rightarrow> cmd \<Rightarrow> state \<Rightarrow> state" where
  \<comment> \<open>a call of \<^verbatim>\<open>exec\<close> whose result the script does not look at\<close>
  "exec' w c s = snd (exec w c s)"

definition spawn :: "world \<Rightarrow> prog \<Rightarrow> state \<Rightarrow> nat option \<times> state" where
  "spawn w p s = (let pid = spawn_pid w (trace s) p in (pid, emit (Spawn p pid) s))"

definition echo :: "string \<Rightarrow> state \<Rightarrow> state" where
  "echo m s = emit (Echo [Lit m]) s"

definition echo_pid :: "string \<Rightarrow> nat option \<Rightarrow> state \<Rightarrow> state" where
  "echo_pid m p s = emit (Echo [Lit m, Pid p]) s"

definition describe :: "string \<Rightarrow> state \<Rightarrow> state" where
  "describe message s =
     emit (Echo [Lit [CHR 0x0A, CHR 0x0A], Lit ''>>>>> '', Lit message,
                 Lit [CHR 0x0A, CHR 0x0A, CHR 0x0A]]) s"

definition truthy :: "nat option \<Rightarrow> bool" where
  \<comment> \<open>JavaScript's test \<^verbatim>\<open>if (pid)\<close>: \<^verbatim>\<open>undefined\<close> and \<^verbatim>\<open>0\<close> are false\<close>
  "truthy p = (case p of None \<Rightarrow> False | Some n \<Rightarrow> n \<noteq> 0)"

definition fail :: "state \<Rightarrow> state" where
  \<comment> \<open>\<^verbatim>\<open>exitCode = 1; throw Error(exitCode);\<close>\<close>
  "fail s = s\<lparr>exitCode := Some 1, thrown := True\<rparr>"

subsection \<open>The Retrier\<close>

text \<open>
  Modelled from the spec: the module \<^verbatim>\<open>./try-n-times\<close> that line 31 requires is not among
  the sources. Section 4.1 of the specification gives its contract: it invokes the
  operation; on failure, if attempts remain, it invokes the recovery action and re-invokes
  the operation; it returns the signal of the final attempt. A signal is an exit code and
  \<open>0\<close> is success, as at every call site. The count \<open>k\<close> of \<open>attempts\<close> is the number
  of attempts that remain after the current one. The contract asks for a maximum of at
  least one attempt; under a smaller maximum the model still makes the first attempt and
  none remains after it.
\<close>

fun attempts :: "('s \<Rightarrow> int \<times> 's) \<Rightarrow> ('s \<Rightarrow> 's) option \<Rightarrow> nat \<Rightarrow> 's \<Rightarrow> int \<times> 's" where
  "attempts funcToRetry onEveryError 0 s = funcToRetry s"
| "attempts funcToRetry onEveryError (Suc k) s =
     (case funcToRetry s of
        (code, s1) \<Rightarrow>
          if code = 0 then (code, s1)
          else attempts funcToRetry onEveryError k
                 (case onEveryError of None \<Rightarrow> s1 | Some recover \<Rightarrow> recover s1))"

definition tryExecNTimes ::
    "('s \<Rightarrow> int \<times> 's) \<Rightarrow> int \<Rightarrow> ('s \<Rightarrow> 's) option \<Rightarrow> 's \<Rightarrow> int \<times> 's" where
  \<comment> \<open>Modelled from the spec: a maximum of \<open>n\<close> attempts leaves \<open>n - 1\<close> after the first\<close>
  "tryExecNTimes funcToRetry n onEveryError s = attempts funcToRetry onEveryError (nat (n - 1)) s"

subsection \<open>The stages of the \<^verbatim>\<open>try\<close> block\<close>

definition numberOfRetries :: "argv \<Rightarrow> int" where
  \<comment> \<open>\<^verbatim>\<open>argv.retries || 1\<close>: an absent flag and the number \<^verbatim>\<open>0\<close> are false\<close>
  "numberOfRetries a = (case retries a of None \<Rightarrow> 1 | Some n \<Rightarrow> if n = 0 then 1 else n)"

fun run_stages :: "(state \<Rightarrow> state) list \<Rightarrow> state \<Rightarrow> state" where
  \<comment> \<open>statements in sequence: once an error is thrown, the rest is skipped\<close>
  "run_stages [] s = s"
| "run_stages (f # fs) s = (if thrown s then s else run_stages fs (f s))"

definition install_cli :: "world \<Rightarrow> argv \<Rightarrow> state \<Rightarrow> state" where
  \<comment> \<open>lines 44 to 53\<close>
  "install_cli w a s =
     (if \<not> skip_cli_install a then
        (case exec w YarnGlobalAddCli s of
           (code, s1) \<Rightarrow>
             if code \<noteq> 0 then
               fail (echo ''Run with --skip-cli-install to skip this step''
                      (echo ''Could not install react-native-cli globally.'' s1))
             else s1)
      else s)"

definition android_binaries :: "world \<Rightarrow> argv \<Rightarrow> state \<Rightarrow> state" where
  \<comment> \<open>lines 55 to 65\<close>
  "android_binaries w a s =
     (if android a then
        (case exec w GradlewInstallArchives s of
           (code, s1) \<Rightarrow>
             if code \<noteq> 0 then fail (echo ''Failed to compile Android binaries'' s1)
             else s1)
      else s)"

definition install_flow :: "world \<Rightarrow> argv \<Rightarrow> state \<Rightarrow> state" where
  \<comment> \<open>lines 67 to 82\<close>
  "install_flow w a s =
     (if js a then
        (case tryExecNTimes (exec w NpmInstallFlowBin) (numberOfRetries a)
                (Some (exec' w Sleep10)) s of
           (code, s1) \<Rightarrow>
             if code \<noteq> 0 then
               fail (echo ''Most common reason is npm registry connectivity, try again''
                      (echo ''Failed to install Flow'' s1))
             else s1)
      else s)"

definition npm_pack :: "world \<Rightarrow> state \<Rightarrow> state" where
  \<comment> \<open>lines 84 to 88\<close>
  "npm_pack w s =
     (case exec w NpmPack s of
        (code, s1) \<Rightarrow>
          if code \<noteq> 0 then fail (echo ''Failed to pack react-native'' s1) else s1)"

definition remove_partial_project :: "world \<Rightarrow> state \<Rightarrow> state" where
  \<comment> \<open>the recovery action of lines 101 to 104\<close>
  "remove_partial_project w s = exec' w Sleep10 (emit (Rm ''-rf'' ''EndToEndTest'') s)"

definition react_native_init :: "world \<Rightarrow> argv \<Rightarrow> state \<Rightarrow> state" where
  \<comment> \<open>lines 90 to 111\<close>
  "react_native_init w a s =
     (case tryExecNTimes (exec w RnInit) (numberOfRetries a)
             (Some (remove_partial_project w))
             (echo ''Creating EndToEndTest React Native app'' (emit (Cd ''TEMP'') s)) of
        (code, s1) \<Rightarrow>
          if code \<noteq> 0 then
            fail (echo ''Most common reason is npm registry connectivity, try again''
                   (echo ''Failed to execute react-native init'' s1))
          else s1)"

definition npm_install :: "world \<Rightarrow> argv \<Rightarrow> state \<Rightarrow> state" where
  \<comment> \<open>lines 113 to 135\<close>
  "npm_install w a s =
     (let s1 = emit (Cp ''ROOT/metro.config.js'' ''EndToEndTest/.'') s;
          s2 = emit (Cp ''ROOT/rn-get-polyfills.js'' ''EndToEndTest/.'') s1;
          s3 = emit (Cd ''EndToEndTest'') s2;
          s4 = echo ''Installing React Native package'' s3;
          s5 = exec' w NpmInstallPackage s4;
          s6 = echo ''Installing node_modules'' s5
      in case tryExecNTimes (exec w NpmInstall) (numberOfRetries a)
                (Some (exec' w Sleep10)) s6 of
           (code, s7) \<Rightarrow>
             if code \<noteq> 0 then
               fail (echo ''Most common reason is npm registry connectivity, try again''
                      (echo ''Failed to execute npm install'' s7))
             else s7)"

text \<open>The android branch, lines 137 to 206, in the four parts its \<^verbatim>\<open>throw\<close>s divide it in.\<close>

definition android_framework :: "world \<Rightarrow> argv \<Rightarrow> state \<Rightarrow> state" where
  \<comment> \<open>lines 138 to 154; this call of the Retrier has no recovery action\<close>
  "android_framework w a s =
     (let s1 = describe ''Executing Android end-to-end tests'' s;
          s2 = echo ''Installing end-to-end framework'' s1
      in case tryExecNTimes (exec w YarnAddAppium) (numberOfRetries a) None s2 of
           (code, s3) \<Rightarrow>
             if code \<noteq> 0 then
               fail (echo ''Most common reason is npm registry connectivity, try again''
                      (echo ''Failed to install appium'' s3))
             else s3)"

definition android_keystore :: "world \<Rightarrow> state \<Rightarrow> state" where
  \<comment> \<open>lines 155 to 170\<close>
  "android_keystore w s =
     (let s1 = emit (Cp ''SCRIPTS/android-e2e-test.js'' ''android-e2e-test.js'') s;
          s2 = emit (Cd ''android'') s1;
          s3 = echo ''Downloading Maven deps'' s2;
          s4 = exec' w GradlewCopyDeps s3;
          s5 = emit (Cd ''..'') s4;
          s6 = exec' w RmKeystore s5
      in case exec w Keytool s6 of
           (code, s7) \<Rightarrow>
             if code \<noteq> 0 then fail (echo ''Key could not be generated'' s7) else s7)"

definition android_app :: "world \<Rightarrow> state \<Rightarrow> state" where
  \<comment> \<open>lines 172 to 181\<close>
  "android_app w s =
     (let s1 = echo_pid ''Starting appium server, '' (APPIUM_PID s) s
      in case spawn w Appium s1 of
           (pid, s2) \<Rightarrow>
             (let s3 = s2\<lparr>APPIUM_PID := pid\<rparr>;
                  s4 = echo ''Building the app'' s3
              in case exec w RnRunAndroid s4 of
                   (code, s5) \<Rightarrow>
                     if code \<noteq> 0 then
                       fail (echo ''could not execute react-native run-android'' s5)
                     else s5))"

definition android_e2e :: "world \<Rightarrow> argv \<Rightarrow> state \<Rightarrow> state" where
  \<comment> \<open>lines 183 to 205\<close>
  "android_e2e w a s =
     (let s1 = echo_pid ''Starting packager server, '' (SERVER_PID s) s
      in case spawn w PackagerAndroid s1 of
           (pid, s2) \<Rightarrow>
             (let s3 = s2\<lparr>SERVER_PID := pid\<rparr>;
                  s4 = exec' w Sleep15 s3;
                  s5 = describe ''Test: Android end-to-end test'' s4
              in case tryExecNTimes (exec w Mocha) (numberOfRetries a)
                        (Some (exec' w Sleep10)) s5 of
                   (code, s6) \<Rightarrow>
                     if code \<noteq> 0 then
                       fail (echo ''Most likely the code is broken''
                              (echo ''Failed to run Android end-to-end tests'' s6))
                     else s6))"

definition android_tests :: "world \<Rightarrow> argv \<Rightarrow> state \<Rightarrow> state" where
  "android_tests w a s =
     (if android a then
        run_stages [android_framework w a, android_keystore w, android_app w,
                    android_e2e w a] s
      else s)"

text \<open>The ios/tvos branch, lines 208 to 277.\<close>

definition iosTestType :: "argv \<Rightarrow> string" where
  "iosTestType a = (if tvos a then ''tvOS'' else ''iOS'')"

definition xcodebuild :: "argv \<Rightarrow> cmd" where
  \<comment> \<open>the command the retried function of lines 231 to 266 builds\<close>
  "xcodebuild a =
     (let destination = ''platform=iOS Simulator,name=iPhone 6s,OS=12.2'';
          sdk = ''iphonesimulator'';
          scheme = ''EndToEndTest''
      in if tvos a then
           Xcodebuild ''platform=tvOS Simulator,name=Apple TV,OS=11.4'' ''EndToEndTest-tvOS''
             ''appletvsimulator'' (iosTestType a)
         else Xcodebuild destination scheme sdk (iosTestType a))"

definition ios_tests :: "world \<Rightarrow> argv \<Rightarrow> state \<Rightarrow> state" where
  "ios_tests w a s =
     (if ios a \<or> tvos a then
        (let s1 = describe (''Executing '' @ iosTestType a @ '' end-to-end tests'') s;
             s2 = emit (Cd ''ios'') s1
         in case spawn w PackagerIos s2 of
              (pid, s3) \<Rightarrow>
                (let s4 = s3\<lparr>SERVER_PID := pid\<rparr>;
                     s5 = exec' w Sleep15 s4;
                     s6 = exec' w CurlWarmup s5;
                     s7 = echo_pid ''Starting packager server, '' (SERVER_PID s6) s6;
                     s8 = echo ''Running pod install'' s7;
                     s9 = exec' w PodInstall s8;
                     s10 = describe (''Test: '' @ iosTestType a @ '' end-to-end test'') s9
                 in case tryExecNTimes (exec w (xcodebuild a)) (numberOfRetries a)
                           (Some (exec' w Sleep10)) s10 of
                      (code, s11) \<Rightarrow>
                        if code \<noteq> 0 then
                          fail (echo ''Most likely the code is broken''
                                 (echo (''Failed to run '' @ iosTestType a @ '' end-to-end tests'')
                                    s11))
                        else emit (Cd ''..'') s11))
      else s)"

text \<open>The JavaScript branch, lines 279 to 308.\<close>

definition bundle_android :: "world \<Rightarrow> state \<Rightarrow> state" where
  "bundle_android w s =
     (let s1 = describe ''Executing JavaScript end-to-end tests'' s;
          s2 = describe ''Test: Verify packager can generate an Android bundle'' s1
      in case exec w BundleAndroid s2 of
           (code, s3) \<Rightarrow>
             if code \<noteq> 0 then fail (echo ''Could not build Android bundle'' s3) else s3)"

definition bundle_ios :: "world \<Rightarrow> state \<Rightarrow> state" where
  "bundle_ios w s =
     (let s1 = describe ''Test: Verify packager can generate an iOS bundle'' s
      in case exec w BundleIos s1 of
           (code, s2) \<Rightarrow>
             if code \<noteq> 0 then fail (echo ''Could not build iOS bundle'' s2) else s2)"

definition flow_check :: "world \<Rightarrow> state \<Rightarrow> state" where
  "flow_check w s =
     (let s1 = describe ''Test: Flow check'' s
      in case exec w FlowCheck s1 of
           (code, s2) \<Rightarrow>
             if code \<noteq> 0 then fail (echo ''Flow check failed.'' s2) else s2)"

definition js_tests :: "world \<Rightarrow> argv \<Rightarrow> state \<Rightarrow> state" where
  "js_tests w a s =
     (if js a then run_stages [bundle_android w, bundle_ios w, flow_check w] s else s)"

definition succeed :: "state \<Rightarrow> state" where
  \<comment> \<open>line 309: \<^verbatim>\<open>exitCode = 0\<close>\<close>
  "succeed s = s\<lparr>exitCode := Some 0\<rparr>"

definition stages :: "world \<Rightarrow> argv \<Rightarrow> (state \<Rightarrow> state) list" where
  "stages w a =
     [install_cli w a, android_binaries w a, install_flow w a, npm_pack w,
      react_native_init w a, npm_install w a, android_tests w a, ios_tests w a,
      js_tests w a, succeed]"

definition try_block :: "world \<Rightarrow> argv \<Rightarrow> state \<Rightarrow> state" where
  "try_block w a s = run_stages (stages w a) s"

subsection \<open>The \<^verbatim>\<open>finally\<close> block and the end of the process\<close>

definition kill_packager :: "world \<Rightarrow> state \<Rightarrow> state" where
  \<comment> \<open>lines 311 to 317\<close>
  "kill_packager w s =
     (case SERVER_PID s of
        None \<Rightarrow> s
      | Some pid \<Rightarrow>
          if pid \<noteq> 0 then
            exec' w LsofKill8081
              (exec' w (Kill9 pid) (echo_pid ''Killing packager '' (SERVER_PID s) s))
          else s)"

definition kill_appium :: "world \<Rightarrow> state \<Rightarrow> state" where
  \<comment> \<open>lines 318 to 321\<close>
  "kill_appium w s =
     (case APPIUM_PID s of
        None \<Rightarrow> s
      | Some pid \<Rightarrow>
          if pid \<noteq> 0 then exec' w (Kill9 pid) (echo_pid ''Killing appium '' (APPIUM_PID s) s)
          else s)"

definition finally_block :: "world \<Rightarrow> state \<Rightarrow> state" where
  "finally_block w s = kill_appium w (kill_packager w s)"

text \<open>
  How the process ends. The \<^verbatim>\<open>try\<close> has no \<^verbatim>\<open>catch\<close>: after the \<^verbatim>\<open>finally\<close> block a
  thrown error leaves the script uncaught and line 323 is not reached; otherwise line 323
  calls \<^verbatim>\<open>exit(exitCode)\<close>. Node ends a process on an uncaught error with status 1, and
  \<^verbatim>\<open>exit\<close> of an unset code is status 0.
\<close>

datatype ending = Exited int | Uncaught

definition status :: "ending \<Rightarrow> int" where
  "status e = (case e of Exited code \<Rightarrow> code | Uncaught \<Rightarrow> 1)"

definition finish :: "state \<Rightarrow> ending" where
  "finish s =
     (if thrown s then Uncaught
      else Exited (case exitCode s of None \<Rightarrow> 0 | Some code \<Rightarrow> code))"

definition before_try :: "world \<Rightarrow> state" where
  \<comment> \<open>line 33, the one command before the \<^verbatim>\<open>try\<close>\<close>
  "before_try w = exec' w Mktemp init"

definition script :: "world \<Rightarrow> argv \<Rightarrow> state" where
  \<comment> \<open>the state when the \<^verbatim>\<open>finally\<close> block is left\<close>
  "script w a = finally_block w (try_block w a (before_try w))"

definition run :: "world \<Rightarrow> argv \<Rightarrow> event list \<times> ending" where
  "run w a = (let s = script w a in (trace s, finish s))"

subsection \<open>Reading a history\<close>

text \<open>
  What the theorems below observe in a history: the commands that were run with their exit
  codes, and the children that were spawned with their process identifiers, in order.
\<close>

fun runs :: "event list \<Rightarrow> (cmd \<times> int) list" where
  "runs [] = []"
| "runs (Exec c k # t) = (c, k) # runs t"
| "runs (e # t) = runs t"

fun spawns :: "event list \<Rightarrow> (prog \<times> nat option) list" where
  "spawns [] = []"
| "spawns (Spawn p pid # t) = (p, pid) # spawns t"
| "spawns (e # t) = spawns t"

definition cleanup :: "cmd \<Rightarrow> bool" where
  \<comment> \<open>the commands of the \<^verbatim>\<open>finally\<close> block\<close>
  "cleanup c = (case c of Kill9 pid \<Rightarrow> True | LsofKill8081 \<Rightarrow> True | _ \<Rightarrow> False)"

definition checked :: "cmd \<Rightarrow> bool" where
  \<comment> \<open>the commands whose \<^verbatim>\<open>.code\<close> the script reads (directly, or as the result of the
      function it hands to the Retrier)\<close>
  "checked c =
     (case c of
        YarnGlobalAddCli \<Rightarrow> True | GradlewInstallArchives \<Rightarrow> True | NpmInstallFlowBin \<Rightarrow> True
      | NpmPack \<Rightarrow> True | RnInit \<Rightarrow> True | NpmInstall \<Rightarrow> True | YarnAddAppium \<Rightarrow> True
      | Keytool \<Rightarrow> True | RnRunAndroid \<Rightarrow> True | Mocha \<Rightarrow> True
      | Xcodebuild destination scheme sdk ty \<Rightarrow> True
      | BundleAndroid \<Rightarrow> True | BundleIos \<Rightarrow> True | FlowCheck \<Rightarrow> True
      | _ \<Rightarrow> False)"

definition work :: "event list \<Rightarrow> (cmd \<times> int) list" where
  \<comment> \<open>the commands of the pipeline: everything run but the kills of the \<^verbatim>\<open>finally\<close> block\<close>
  "work t = filter (\<lambda>r. \<not> cleanup (fst r)) (runs t)"

definition kills :: "event list \<Rightarrow> cmd list" where
  "kills t = filter cleanup (map fst (runs t))"

definition failed_last :: "(cmd \<times> int) list \<Rightarrow> bool" where
  \<comment> \<open>the last command run is one the script checks, and it failed\<close>
  "failed_last rs = (rs \<noteq> [] \<and> checked (fst (last rs)) \<and> snd (last rs) \<noteq> 0)"

definition retried :: "cmd \<Rightarrow> bool" where
  \<comment> \<open>the commands run by a function the script hands to the Retrier\<close>
  "retried c =
     (case c of
        NpmInstallFlowBin \<Rightarrow> True | RnInit \<Rightarrow> True | NpmInstall \<Rightarrow> True
      | YarnAddAppium \<Rightarrow> True | Mocha \<Rightarrow> True
      | Xcodebuild destination scheme sdk ty \<Rightarrow> True
      | _ \<Rightarrow> False)"

definition next_attempt :: "cmd \<Rightarrow> (cmd \<times> int) list \<Rightarrow> bool" where
  \<comment> \<open>the commands that follow start with another run of \<open>c\<close>, after \<^verbatim>\<open>sleep 10s\<close> at most\<close>
  "next_attempt c ys =
     (case ys of
        [] \<Rightarrow> False
      | y # zs \<Rightarrow>
          fst y = c \<or>
          (fst y = Sleep10 \<and> (case zs of [] \<Rightarrow> False | z # us \<Rightarrow> fst z = c)))"

primrec stops_at_failure :: "(cmd \<times> int) list \<Rightarrow> bool" where
  \<comment> \<open>no failure of a checked command is passed over: after it nothing more is run, unless
      the command is a retried one and what follows is its next attempt\<close>
  "stops_at_failure [] = True"
| "stops_at_failure (x # ys) =
     ((checked (fst x) \<and> snd x \<noteq> 0 \<and> ys \<noteq> [] \<longrightarrow> retried (fst x) \<and> next_attempt (fst x) ys) \<and>
      stops_at_failure ys)"

definition attempts_of :: "cmd \<Rightarrow> (cmd \<times> int) list \<Rightarrow> nat" where
  \<comment> \<open>how many times the command \<open>c\<close> was run\<close>
  "attempts_of c rs = length (filter (\<lambda>x. fst x = c) rs)"


definition rounds :: "cmd \<Rightarrow> (int \<Rightarrow> event list) \<Rightarrow> (int \<times> int) list \<Rightarrow> event list" where
  \<comment> \<open>the history of failed attempts of \<open>c\<close>, each followed by the events \<open>E\<close> of the recovery
      action; a pair holds the exit code of the attempt and that of the sleep of the recovery\<close>
  "rounds c E ps = concat (map (\<lambda>x. Exec c (fst x) # E (snd x)) ps)"

definition packager :: "prog \<Rightarrow> bool" where
  "packager p = (p = PackagerAndroid \<or> p = PackagerIos)"

definition latest :: "(prog \<Rightarrow> bool) \<Rightarrow> nat option \<Rightarrow> event list \<Rightarrow> nat option" where
  \<comment> \<open>the value of a variable that starts as \<open>p\<close> and is assigned the \<^verbatim>\<open>pid\<close> of every
      spawn of kind \<open>K\<close> of the history \<open>d\<close>\<close>
  "latest K p d =
     (if filter (\<lambda>x. K (fst x)) (spawns d) = [] then p
      else snd (last (filter (\<lambda>x. K (fst x)) (spawns d))))"

definition expected_kills :: "nat option \<Rightarrow> nat option \<Rightarrow> cmd list" where
  \<comment> \<open>the kills owed to a packager handle and an appium handle: the packager by its
      identifier and then the sweep of port 8081, the appium server by its identifier\<close>
  "expected_kills server appium =
     (if truthy server then [Kill9 (the server), LsofKill8081] else []) @
     (if truthy appium then [Kill9 (the appium)] else [])"

definition is_xcodebuild :: "cmd \<Rightarrow> bool" where
  "is_xcodebuild c = (case c of Xcodebuild destination scheme sdk ty \<Rightarrow> True | _ \<Rightarrow> False)"

subsection \<open>What a stage does to a state\<close>

text \<open>
  \<open>outcome A S s s'\<close> relates the state \<open>s\<close> before a piece of the \<^verbatim>\<open>try\<close> block to the
  state \<open>s'\<close> after it: the history grew by some events \<open>d\<close>; the commands run are in
  \<open>A\<close> and the children spawned in \<open>S\<close>; an error is thrown exactly when the last command
  run is a checked one that failed, and then \<^verbatim>\<open>exitCode\<close> is 1; the two process
  variables hold what the spawns of \<open>d\<close> assigned to them; and no failure of a checked
  command is passed over in \<open>d\<close>.
\<close>

definition outcome :: "cmd set \<Rightarrow> prog set \<Rightarrow> state \<Rightarrow> state \<Rightarrow> bool" where
  "outcome A S s s' \<longleftrightarrow>
     (\<exists>d. trace s' = trace s @ d \<and> fst ` set (runs d) \<subseteq> A \<and> fst ` set (spawns d) \<subseteq> S \<and>
          (thrown s' \<longleftrightarrow> failed_last (runs d)) \<and>
          (thrown s' \<longrightarrow> exitCode s' = Some 1) \<and>
          SERVER_PID s' = latest packager (SERVER_PID s) d \<and>
          APPIUM_PID s' = latest (\<lambda>p. p = Appium) (APPIUM_PID s) d \<and>
          stops_at_failure (runs d))"

definition noise :: "event set" where
  \<comment> \<open>what the recovery actions of the script add to the history\<close>
  "noise = insert (Rm ''-rf'' ''EndToEndTest'') (range (Exec Sleep10))"

definition android_cmds :: "cmd set" where
  "android_cmds = {YarnAddAppium, Sleep10, GradlewCopyDeps, RmKeystore, Keytool, RnRunAndroid,
                   Sleep15, Mocha}"

definition early_cmds :: "cmd set" where
  "early_cmds = {c. \<not> cleanup c \<and> \<not> is_xcodebuild c}"

definition early_stages :: "world \<Rightarrow> argv \<Rightarrow> (state \<Rightarrow> state) list" where
  \<comment> \<open>the stages before the ios/tvos branch\<close>
  "early_stages w a = [install_cli w a, android_binaries w a, install_flow w a, npm_pack w,
      react_native_init w a, npm_install w a, android_tests w a]"

subsection \<open>Observing the calls of the Retrier\<close>

text \<open>
  To count what the Retrier invokes, an operation and a recovery action over any state are
  wrapped so that each invocation adds an entry to a log that rides along with the state.
  \<open>calls r cs\<close> is the log of a run whose attempts returned the codes \<open>cs\<close>: the attempts
  in order, with one recovery between two consecutive attempts when there is a recovery
  action (\<open>r\<close>), and none after the last.
\<close>

datatype call = Attempt int | Recovery

definition logged_op :: "('s \<Rightarrow> int \<times> 's) \<Rightarrow> 's \<times> call list \<Rightarrow> int \<times> 's \<times> call list" where
  "logged_op f sl = (case f (fst sl) of (code, s1) \<Rightarrow> (code, (s1, snd sl @ [Attempt code])))"

definition logged_recovery :: "('s \<Rightarrow> 's) \<Rightarrow> 's \<times> call list \<Rightarrow> 's \<times> call list" where
  "logged_recovery r sl = (r (fst sl), snd sl @ [Recovery])"

fun calls :: "bool \<Rightarrow> int list \<Rightarrow> call list" where
  "calls r [] = []"
| "calls r [c] = [Attempt c]"
| "calls r (c # cs) = Attempt c # (if r then [Recovery] else []) @ calls r cs"

subsection \<open>Concrete worlds and flags\<close>

definition no_flags :: argv where
  "no_flags = \<lparr>android = False, ios = False, tvos = False, js = False,
                skip_cli_install = False, retries = None\<rparr>"

definition calm :: world where
  \<comment> \<open>every command succeeds; a child gets a fresh identifier\<close>
  "calm = \<lparr>exec_code = (\<lambda>h c. 0), spawn_pid = (\<lambda>h p. Some (100 + length h))\<rparr>"

definition failing :: "cmd \<Rightarrow> world" where
  \<comment> \<open>the one command \<open>c\<close> fails every time, every other command succeeds\<close>
  "failing c = calm\<lparr>exec_code := (\<lambda>h c'. if c' = c then 1 else 0)\<rparr>"


definition countdown :: "nat \<Rightarrow> int \<times> nat" where
  \<comment> \<open>an operation on a counter: it fails while the counter is positive\<close>
  "countdown n = (if n = 0 then 0 else 1, n - 1)"


definition android_and_ios :: argv where
  "android_and_ios = no_flags\<lparr>android := True, ios := True\<rparr>"

definition reached :: "world \<Rightarrow> argv \<Rightarrow> nat \<Rightarrow> state" where
  \<comment> \<open>the state after the first \<open>i\<close> stages of the \<^verbatim>\<open>try\<close> block\<close>
  "reached w a i = run_stages (take i (stages w a)) (before_try w)"

definition reached_e2e :: "world \<Rightarrow> argv \<Rightarrow> state" where
  \<comment> \<open>the state in which the android branch gets to its end-to-end test\<close>
  "reached_e2e w a =
     run_stages [android_framework w a, android_keystore w, android_app w] (reached w a 6)"




definition three_retries :: argv where
  "three_retries = no_flags\<lparr>retries := Some 3\<rparr>"

definition xcodebuild_tvOS :: cmd where
  \<comment> \<open>the test command with the tvOS destination, scheme, SDK and report directory\<close>
  "xcodebuild_tvOS =
     Xcodebuild ''platform=tvOS Simulator,name=Apple TV,OS=11.4'' ''EndToEndTest-tvOS''
       ''appletvsimulator'' ''tvOS''"

definition ios_and_tvos :: argv where
  "ios_and_tvos = no_flags\<lparr>ios := True, tvos := True\<rparr>"

definition android_and_tvos :: argv where
  "android_and_tvos = no_flags\<lparr>android := True, tvos := True\<rparr>"

definition no_second_pid :: world where
  \<comment> \<open>every command succeeds; the spawn of the ios/tvos branch returns a child without
      \<^verbatim>\<open>pid\<close>, every other spawn a fresh identifier\<close>
  "no_second_pid =
     calm\<lparr>spawn_pid := (\<lambda>h p. if p = PackagerIos then None else Some (100 + length h))\<rparr>"

definition zero_retries :: argv where
  \<comment> \<open>\<^verbatim>\<open>--android --ios --js --retries 0\<close>\<close>
  "zero_retries = no_flags\<lparr>android := True, ios := True, js := True, retries := Some 0\<rparr>"

section \<open>Properties\<close>

subsection \<open>The Retrier\<close>

lemma calls_Cons:
  "cs \<noteq> [] \<Longrightarrow> calls r (c # cs) = Attempt c # (if r then [Recovery] else []) @ calls r cs"
  by (cases cs) simp_all

lemma count_recovery_calls:
  "length (filter (\<lambda>e. e = Recovery) (calls r cs)) = (if r then length cs - 1 else 0)"
  by (induction r cs rule: calls.induct) auto

lemma attempts_logged:
  "\<exists>cs. cs \<noteq> [] \<and> length cs \<le> Suc k \<and> (\<forall>c\<in>set (butlast cs). c \<noteq> 0) \<and>
        (last cs \<noteq> 0 \<longrightarrow> length cs = Suc k) \<and>
        fst (attempts f r k s) = last cs \<and>
        attempts (logged_op f) (map_option logged_recovery r) k (s, l) =
          (last cs, snd (attempts f r k s), l @ calls (r \<noteq> None) cs)"
proof (induction k arbitrary: s l)
  case 0
  show ?case
    by (rule exI [of _ "[fst (f s)]"]) (simp add: logged_op_def split: prod.splits)
next
  case (Suc k)
  obtain code s1 where f: "f s = (code, s1)" by (cases "f s")
  show ?case
  proof (cases "code = 0")
    case True
    with f show ?thesis
      by (intro exI [of _ "[0]"]) (simp add: logged_op_def)
  next
    case False
    define s2 where "s2 = (case r of None \<Rightarrow> s1 | Some recover \<Rightarrow> recover s1)"
    define l2 where "l2 = (l @ [Attempt code]) @ (if r \<noteq> None then [Recovery] else [])"
    from Suc.IH [of s2 l2] obtain cs where cs: "cs \<noteq> []" "length cs \<le> Suc k"
      "\<forall>c\<in>set (butlast cs). c \<noteq> 0" "last cs \<noteq> 0 \<longrightarrow> length cs = Suc k"
      "fst (attempts f r k s2) = last cs"
      "attempts (logged_op f) (map_option logged_recovery r) k (s2, l2) =
          (last cs, snd (attempts f r k s2), l2 @ calls (r \<noteq> None) cs)"
      by blast
    have step: "attempts f r (Suc k) s = attempts f r k s2"
      using f False by (simp add: s2_def)
    have lstep: "attempts (logged_op f) (map_option logged_recovery r) (Suc k) (s, l) =
        attempts (logged_op f) (map_option logged_recovery r) k (s2, l2)"
      using f False by (cases r) (simp_all add: s2_def l2_def logged_op_def logged_recovery_def)
    show ?thesis
      using cs False unfolding step lstep
      by (intro exI [of _ "code # cs"]) (simp add: calls_Cons l2_def)
  qed
qed

text \<open>
  Claim C1. For every maximum attempt count \<open>n \<ge> 1\<close>, every operation \<open>f\<close> and every
  optional recovery action \<open>r\<close>, there is a non-empty list \<open>cs\<close> of at most \<open>n\<close> exit
  codes, those of the attempts the Retrier made, such that: every attempt but the last
  failed (so the Retrier stops at the first success); the Retrier returns the code of the
  last attempt; a last attempt that failed is the \<open>n\<close>-th; and the log of the invocations
  is \<open>calls\<close>: the attempts in order with one recovery between two consecutive attempts
  and none after the last, hence one recovery less than attempts (\<open>n - 1\<close> when all \<open>n\<close>
  attempts are used), and none at all without a recovery action. Logging changes neither
  the returned code nor the final state.
\<close>

theorem tryExecNTimes_contract:
  assumes "1 \<le> n"
  shows "\<exists>cs. cs \<noteq> [] \<and> int (length cs) \<le> n \<and>
           (\<forall>c\<in>set (butlast cs). c \<noteq> 0) \<and>
           (last cs \<noteq> 0 \<longrightarrow> int (length cs) = n) \<and>
           fst (tryExecNTimes f n r s) = last cs \<and>
           tryExecNTimes (logged_op f) n (map_option logged_recovery r) (s, []) =
             (last cs, snd (tryExecNTimes f n r s), calls (r \<noteq> None) cs) \<and>
           length (filter (\<lambda>e. e = Recovery) (calls (r \<noteq> None) cs)) =
             (if r = None then 0 else length cs - 1)"
proof -
  from attempts_logged [of "nat (n - 1)" f r s "[]"]
  obtain cs where cs: "cs \<noteq> []" "length cs \<le> Suc (nat (n - 1))"
      "\<forall>c\<in>set (butlast cs). c \<noteq> 0" "last cs \<noteq> 0 \<longrightarrow> length cs = Suc (nat (n - 1))"
      "fst (attempts f r (nat (n - 1)) s) = last cs"
      "attempts (logged_op f) (map_option logged_recovery r) (nat (n - 1)) (s, []) =
          (last cs, snd (attempts f r (nat (n - 1)) s), [] @ calls (r \<noteq> None) cs)"
    by blast
  have n: "int (Suc (nat (n - 1))) = n" using assms by simp
  have "int (length cs) \<le> n" using cs(2) n by linarith
  moreover have "last cs \<noteq> 0 \<longrightarrow> int (length cs) = n" using cs(4) n by presburger
  ultimately show ?thesis
    using cs(1,3,5,6) by (intro exI [of _ cs]) (simp add: tryExecNTimes_def count_recovery_calls)
qed

theorem tryExecNTimes_contract_witness:
  "(1::int) \<le> 3 \<and>
   tryExecNTimes (logged_op countdown) 3 (Some (logged_recovery id)) (1, []) =
     (0, 0, [Attempt 1, Recovery, Attempt 0]) \<and>
   (\<exists>cs. cs \<noteq> [] \<and> int (length cs) \<le> 3 \<and>
           (\<forall>c\<in>set (butlast cs). c \<noteq> 0) \<and>
           (last cs \<noteq> 0 \<longrightarrow> int (length cs) = 3) \<and>
           fst (tryExecNTimes countdown 3 (Some id) 1) = last cs \<and>
           tryExecNTimes (logged_op countdown) 3 (Some (logged_recovery id)) (1, []) =
             (last cs, snd (tryExecNTimes countdown 3 (Some id) 1), calls True cs) \<and>
           length (filter (\<lambda>e. e = Recovery) (calls True cs)) = length cs - 1)"
proof (intro conjI)
  show h: "(1::int) \<le> 3" by simp
  show "tryExecNTimes (logged_op countdown) 3 (Some (logged_recovery id)) (1, []) =
     (0, 0, [Attempt 1, Recovery, Attempt 0])"
    by code_simp
  show "\<exists>cs. cs \<noteq> [] \<and> int (length cs) \<le> 3 \<and>
           (\<forall>c\<in>set (butlast cs). c \<noteq> 0) \<and>
           (last cs \<noteq> 0 \<longrightarrow> int (length cs) = 3) \<and>
           fst (tryExecNTimes countdown 3 (Some id) 1) = last cs \<and>
           tryExecNTimes (logged_op countdown) 3 (Some (logged_recovery id)) (1, []) =
             (last cs, snd (tryExecNTimes countdown 3 (Some id) 1), calls True cs) \<and>
           length (filter (\<lambda>e. e = Recovery) (calls True cs)) = length cs - 1"
    using tryExecNTimes_contract [OF h, where f = countdown and r = "Some id" and s = 1]
    by simp
qed

subsection \<open>Unfolding the script\<close>

lemmas prim_defs = emit_def exec_def exec'_def spawn_def echo_def echo_pid_def describe_def
  fail_def succeed_def

lemmas end_defs = run_def script_def finally_block_def kill_packager_def kill_appium_def
  finish_def status_def before_try_def init_def try_block_def stages_def

lemmas stage_defs = install_cli_def android_binaries_def install_flow_def npm_pack_def
  remove_partial_project_def react_native_init_def npm_install_def android_framework_def
  android_keystore_def android_app_def android_e2e_def android_tests_def iosTestType_def
  xcodebuild_def ios_tests_def bundle_android_def bundle_ios_def flow_check_def js_tests_def


subsection \<open>Histories and sequences of stages\<close>

lemma runs_append [simp]: "runs (t @ u) = runs t @ runs u"
  by (induction t rule: runs.induct) simp_all

lemma spawns_append [simp]: "spawns (t @ u) = spawns t @ spawns u"
  by (induction t rule: spawns.induct) simp_all

lemma run_stages_thrown [simp]: "thrown s \<Longrightarrow> run_stages fs s = s"
  by (cases fs) simp_all

lemma run_stages_append: "run_stages (fs @ gs) s = run_stages gs (run_stages fs s)"
  by (induction fs arbitrary: s) simp_all

lemma run_stages_inv:
  assumes "\<And>f s. f \<in> set fs \<Longrightarrow> \<not> thrown s \<Longrightarrow> P s \<Longrightarrow> P (f s)" and "P s"
  shows "P (run_stages fs s)"
  using assms by (induction fs arbitrary: s) simp_all

text \<open>What a retried command adds to the history.\<close>

lemma rounds_Nil [simp]: "rounds c E [] = []"
  by (simp add: rounds_def)

lemma rounds_Cons [simp]: "rounds c E (x # ps) = Exec c (fst x) # E (snd x) @ rounds c E ps"
  by (simp add: rounds_def)

lemma attempts_rounds:
  assumes "\<forall>s::state. \<exists>v. (case r of None \<Rightarrow> s | Some rc \<Rightarrow> rc s) = s\<lparr>trace := trace s @ E v\<rparr>"
  shows "\<exists>ps code.
           attempts (exec w c) r k s =
             (code, s\<lparr>trace := trace s @ rounds c E ps @ [Exec c code]\<rparr>) \<and>
           (\<forall>x\<in>set ps. fst x \<noteq> 0) \<and> length ps \<le> k \<and> (code \<noteq> 0 \<longrightarrow> length ps = k)"
proof (induction k arbitrary: s)
  case 0
  show ?case
    by (intro exI [of _ "[]"] exI [of _ "exec_code w (trace s) c"])
       (simp add: exec_def emit_def Let_def)
next
  case (Suc k)
  define code where "code = exec_code w (trace s) c"
  define s1 where "s1 = s\<lparr>trace := trace s @ [Exec c code]\<rparr>"
  have f: "exec w c s = (code, s1)" by (simp add: exec_def emit_def code_def s1_def Let_def)
  show ?case
  proof (cases "code = 0")
    case True
    with f show ?thesis
      by (intro exI [of _ "[]"] exI [of _ code]) (simp add: s1_def)
  next
    case False
    from assms obtain v where
      v: "(case r of None \<Rightarrow> s1 | Some rc \<Rightarrow> rc s1) = s1\<lparr>trace := trace s1 @ E v\<rparr>"
      by blast
    define s2 where "s2 = s1\<lparr>trace := trace s1 @ E v\<rparr>"
    from Suc.IH [of s2] obtain ps code2 where
      ih: "attempts (exec w c) r k s2 =
             (code2, s2\<lparr>trace := trace s2 @ rounds c E ps @ [Exec c code2]\<rparr>)"
      "\<forall>x\<in>set ps. fst x \<noteq> 0" "length ps \<le> k" "code2 \<noteq> 0 \<longrightarrow> length ps = k"
      by (elim exE conjE)
    have step: "attempts (exec w c) r (Suc k) s = attempts (exec w c) r k s2"
      using f False v by (simp add: s2_def)
    show ?thesis
      unfolding step ih(1)
      using ih(2,3,4) False
      by (intro exI [of _ "(code, v) # ps"] exI [of _ code2]) (simp add: s2_def s1_def)
  qed
qed

lemma rounds_noise:
  assumes "\<And>v. set (E v) \<subseteq> noise"
  shows "set (rounds c E ps) \<subseteq> range (Exec c) \<union> noise"
  using assms by (induction ps) auto

lemma rounds_head:
  "\<exists>k zs. runs (rounds c E ps) @ (c, code) # ys = (c, k) # zs"
  by (cases ps) simp_all

lemma rounds_stops:
  assumes "\<And>v. runs (E v) = [] \<or> (\<exists>u. runs (E v) = [(Sleep10, u)])" and "retried c"
  shows "stops_at_failure (runs (rounds c E ps) @ (c, code) # ys) =
           stops_at_failure ((c, code) # ys)"
proof (induction ps)
  case Nil
  show ?case by simp
next
  case (Cons x ps)
  obtain k zs where h: "runs (rounds c E ps) @ (c, code) # ys = (c, k) # zs"
    using rounds_head by blast
  from assms(1) [of "snd x"] show ?case
  proof
    assume "runs (E (snd x)) = []"
    then show ?thesis
      using Cons.IH assms(2) by (simp add: h next_attempt_def)
  next
    assume "\<exists>u. runs (E (snd x)) = [(Sleep10, u)]"
    then obtain u where "runs (E (snd x)) = [(Sleep10, u)]" ..
    then show ?thesis
      using Cons.IH assms(2) by (simp add: h next_attempt_def checked_def)
  qed
qed

lemma rounds_attempts:
  assumes "\<And>v. runs (E v) = [] \<or> (\<exists>u. runs (E v) = [(Sleep10, u)])" and "c \<noteq> Sleep10"
  shows "attempts_of c (runs (rounds c E ps)) = length ps"
proof (induction ps)
  case Nil
  show ?case by (simp add: attempts_of_def)
next
  case (Cons x ps)
  from assms(1) [of "snd x"] Cons.IH assms(2) show ?case
    by (auto simp: attempts_of_def)
qed

lemma stops_at_failure_append:
  assumes "stops_at_failure xs" "stops_at_failure ys" "\<not> failed_last xs"
  shows "stops_at_failure (xs @ ys)"
  using assms
proof (induction xs)
  case Nil
  then show ?case by simp
next
  case (Cons x xs)
  show ?case
  proof (cases "xs = []")
    case True
    with Cons.prems show ?thesis by (auto simp: failed_last_def)
  next
    case False
    have n: "next_attempt c xs \<Longrightarrow> next_attempt c (xs @ ys)" for c
      by (auto simp: next_attempt_def split: list.splits)
    have "\<not> failed_last xs" using Cons.prems(3) False by (simp add: failed_last_def)
    with Cons.IH Cons.prems(1,2) have "stops_at_failure (xs @ ys)" by simp
    with Cons.prems(1) False n show ?thesis by simp
  qed
qed

lemma stops_at_failure_unchecked:
  "\<forall>x\<in>set xs. \<not> checked (fst x) \<Longrightarrow> stops_at_failure (xs @ ys) = stops_at_failure ys"
  by (induction xs) simp_all

lemma latest_Nil [simp]: "latest K p [] = p"
  by (simp add: latest_def)

lemma latest_append: "latest K p (d @ e) = latest K (latest K p d) e"
  by (simp add: latest_def)

lemma failed_last_append:
  "failed_last (xs @ ys) = (if ys = [] then failed_last xs else failed_last ys)"
  by (simp add: failed_last_def)

lemma outcome_refl: "\<not> thrown s \<Longrightarrow> outcome A S s s"
  by (simp add: outcome_def failed_last_def)

lemma outcomeE:
  assumes "outcome A S s t"
  obtains d where "trace t = trace s @ d" "fst ` set (runs d) \<subseteq> A"
    "fst ` set (spawns d) \<subseteq> S" "thrown t \<longleftrightarrow> failed_last (runs d)"
    "thrown t \<longrightarrow> exitCode t = Some 1"
    "SERVER_PID t = latest packager (SERVER_PID s) d"
    "APPIUM_PID t = latest (\<lambda>p. p = Appium) (APPIUM_PID s) d"
    "stops_at_failure (runs d)"
proof -
  from assms obtain d where d: "trace t = trace s @ d \<and> fst ` set (runs d) \<subseteq> A \<and>
          fst ` set (spawns d) \<subseteq> S \<and>
          (thrown t \<longleftrightarrow> failed_last (runs d)) \<and>
          (thrown t \<longrightarrow> exitCode t = Some 1) \<and>
          SERVER_PID t = latest packager (SERVER_PID s) d \<and>
          APPIUM_PID t = latest (\<lambda>p. p = Appium) (APPIUM_PID s) d \<and>
          stops_at_failure (runs d)"
    unfolding outcome_def by (rule exE)
  from d show thesis
    by (intro that [of d]) (elim conjE, assumption)+
qed

lemma outcome_trans:
  assumes "outcome A S s t" "\<not> thrown t" "outcome A S t u"
  shows "outcome A S s u"
proof -
  from assms(1) obtain d where d: "trace t = trace s @ d" "fst ` set (runs d) \<subseteq> A"
    "fst ` set (spawns d) \<subseteq> S" "thrown t \<longleftrightarrow> failed_last (runs d)"
    "thrown t \<longrightarrow> exitCode t = Some 1"
    "SERVER_PID t = latest packager (SERVER_PID s) d"
    "APPIUM_PID t = latest (\<lambda>p. p = Appium) (APPIUM_PID s) d"
    "stops_at_failure (runs d)"
    by (rule outcomeE)
  from assms(3) obtain e where e: "trace u = trace t @ e" "fst ` set (runs e) \<subseteq> A"
    "fst ` set (spawns e) \<subseteq> S" "thrown u \<longleftrightarrow> failed_last (runs e)"
    "thrown u \<longrightarrow> exitCode u = Some 1"
    "SERVER_PID u = latest packager (SERVER_PID t) e"
    "APPIUM_PID u = latest (\<lambda>p. p = Appium) (APPIUM_PID t) e"
    "stops_at_failure (runs e)"
    by (rule outcomeE)
  have fl: "failed_last (runs (d @ e)) = failed_last (runs e)"
    using d(4) assms(2) by (cases "runs e = []") (simp_all add: failed_last_def)
  show ?thesis
    unfolding outcome_def
  proof (intro exI [of _ "d @ e"] conjI)
    show "trace u = trace s @ d @ e" using d(1) e(1) by simp
    show "fst ` set (runs (d @ e)) \<subseteq> A" using d(2) e(2) by (simp add: image_Un)
    show "fst ` set (spawns (d @ e)) \<subseteq> S" using d(3) e(3) by (simp add: image_Un)
    show "thrown u = failed_last (runs (d @ e))" using fl e(4) by simp
    show "thrown u \<longrightarrow> exitCode u = Some 1" using e(5) .
    show "SERVER_PID u = latest packager (SERVER_PID s) (d @ e)"
      using d(6) e(6) by (simp add: latest_append)
    show "APPIUM_PID u = latest (\<lambda>p. p = Appium) (APPIUM_PID s) (d @ e)"
      using d(7) e(7) by (simp add: latest_append)
    show "stops_at_failure (runs (d @ e))"
      using stops_at_failure_append [OF d(8) e(8)] d(4) assms(2) by simp
  qed
qed

lemma outcome_mono:
  assumes "outcome A S s t" "A \<subseteq> A'" "S \<subseteq> S'"
  shows "outcome A' S' s t"
proof -
  from assms(1) obtain d where d: "trace t = trace s @ d" "fst ` set (runs d) \<subseteq> A"
    "fst ` set (spawns d) \<subseteq> S" "thrown t \<longleftrightarrow> failed_last (runs d)"
    "thrown t \<longrightarrow> exitCode t = Some 1"
    "SERVER_PID t = latest packager (SERVER_PID s) d"
    "APPIUM_PID t = latest (\<lambda>p. p = Appium) (APPIUM_PID s) d"
    "stops_at_failure (runs d)"
    by (rule outcomeE)
  have "fst ` set (runs d) \<subseteq> A'" "fst ` set (spawns d) \<subseteq> S'"
    using d(2,3) assms(2,3) by blast+
  with d show ?thesis
    unfolding outcome_def by (intro exI [of _ d]) simp
qed

lemma outcome_run_stages:
  assumes "\<And>f s. f \<in> set fs \<Longrightarrow> \<not> thrown s \<Longrightarrow> outcome A S s (f s)" and "\<not> thrown s"
  shows "outcome A S s (run_stages fs s)"
  using assms
proof (induction fs arbitrary: s)
  case Nil
  then show ?case by (simp add: outcome_refl)
next
  case (Cons f fs)
  have 1: "outcome A S s (f s)" using Cons.prems by simp
  show ?case
  proof (cases "thrown (f s)")
    case True
    with 1 Cons.prems(2) show ?thesis by simp
  next
    case False
    have "outcome A S (f s) (run_stages fs (f s))"
      using Cons.IH [of "f s"] Cons.prems(1) False by simp
    with 1 False show ?thesis using Cons.prems(2) by (simp add: outcome_trans)
  qed
qed

text \<open>The Retrier on a command, with each of the three recovery actions of the script.\<close>

lemma recover_sleep:
  "\<exists>v. exec' w Sleep10 s = s\<lparr>trace := trace s @ [Exec Sleep10 v]\<rparr>"
  by (rule exI [of _ "exec_code w (trace s) Sleep10"]) (simp add: prim_defs Let_def)

lemma recover_remove:
  "\<exists>v. remove_partial_project w s =
         s\<lparr>trace := trace s @ [Rm ''-rf'' ''EndToEndTest'', Exec Sleep10 v]\<rparr>"
  by (rule exI [of _ "exec_code w (trace s @ [Rm ''-rf'' ''EndToEndTest'']) Sleep10"])
     (simp add: remove_partial_project_def prim_defs Let_def)

lemma retried_rounds:
  fixes E :: "int \<Rightarrow> event list"
  assumes rec: "\<forall>s::state. \<exists>v. (case r of None \<Rightarrow> s | Some rc \<Rightarrow> rc s) = s\<lparr>trace := trace s @ E v\<rparr>"
    and noise: "\<And>v. set (E v) \<subseteq> noise"
    and one: "\<And>v. runs (E v) = [] \<or> (\<exists>u. runs (E v) = [(Sleep10, u)])"
  obtains pre code where
    "tryExecNTimes (exec w c) n r s = (code, s\<lparr>trace := trace s @ pre @ [Exec c code]\<rparr>)"
    "set pre \<subseteq> range (Exec c) \<union> noise"
    "retried c \<longrightarrow>
       (\<forall>k ys. stops_at_failure (runs pre @ (c, k) # ys) = stops_at_failure ((c, k) # ys))"
    "c \<noteq> Sleep10 \<longrightarrow> int (attempts_of c (runs pre)) < max 1 n"
    "c \<noteq> Sleep10 \<longrightarrow> code \<noteq> 0 \<longrightarrow> int (attempts_of c (runs pre)) + 1 = max 1 n"
proof -
  from attempts_rounds [OF rec, of w c "nat (n - 1)" s]
  obtain ps code where p: "attempts (exec w c) r (nat (n - 1)) s =
        (code, s\<lparr>trace := trace s @ rounds c E ps @ [Exec c code]\<rparr>)"
    "length ps \<le> nat (n - 1)" "code \<noteq> 0 \<longrightarrow> length ps = nat (n - 1)"
    by (elim exE conjE)
  show thesis
  proof (rule that [of code "rounds c E ps"])
    show "tryExecNTimes (exec w c) n r s =
        (code, s\<lparr>trace := trace s @ rounds c E ps @ [Exec c code]\<rparr>)"
      unfolding tryExecNTimes_def by (fact p(1))
    show "set (rounds c E ps) \<subseteq> range (Exec c) \<union> noise"
      by (rule rounds_noise) (rule noise)
    show "retried c \<longrightarrow>
       (\<forall>k ys. stops_at_failure (runs (rounds c E ps) @ (c, k) # ys) =
             stops_at_failure ((c, k) # ys))"
      using rounds_stops [of E c ps, OF one] by blast
    show "c \<noteq> Sleep10 \<longrightarrow> int (attempts_of c (runs (rounds c E ps))) < max 1 n"
      using rounds_attempts [of E c ps, OF one] p(2) by auto
    show "c \<noteq> Sleep10 \<longrightarrow> code \<noteq> 0 \<longrightarrow>
        int (attempts_of c (runs (rounds c E ps))) + 1 = max 1 n"
      using rounds_attempts [of E c ps, OF one] p(3) by auto
  qed
qed

lemma retried_exec:
  assumes "r = None \<or> r = Some (exec' w Sleep10) \<or> r = Some (remove_partial_project w)"
  obtains pre code where
    "tryExecNTimes (exec w c) n r s = (code, s\<lparr>trace := trace s @ pre @ [Exec c code]\<rparr>)"
    "set pre \<subseteq> range (Exec c) \<union> noise"
    "retried c \<longrightarrow>
       (\<forall>k ys. stops_at_failure (runs pre @ (c, k) # ys) = stops_at_failure ((c, k) # ys))"
    "c \<noteq> Sleep10 \<longrightarrow> int (attempts_of c (runs pre)) < max 1 n"
    "c \<noteq> Sleep10 \<longrightarrow> code \<noteq> 0 \<longrightarrow> int (attempts_of c (runs pre)) + 1 = max 1 n"
proof -
  from assms consider "r = None" | "r = Some (exec' w Sleep10)"
    | "r = Some (remove_partial_project w)" by blast
  then show thesis
  proof cases
    case 1
    show ?thesis
      by (rule retried_rounds [of r "\<lambda>v. []" w c n s, OF _ _ _ that])
         (simp_all add: 1)
  next
    case 2
    show ?thesis
      by (rule retried_rounds [of r "\<lambda>v. [Exec Sleep10 v]" w c n s, OF _ _ _ that])
         (simp_all add: 2 recover_sleep noise_def)
  next
    case 3
    show ?thesis
      by (rule retried_rounds [of r "\<lambda>v. [Rm ''-rf'' ''EndToEndTest'', Exec Sleep10 v]" w c n s,
            OF _ _ _ that])
         (simp_all add: 3 recover_remove noise_def)
  qed
qed

lemma noise_runs':
  "set pre \<subseteq> range (Exec c) \<union> noise \<Longrightarrow>
     (\<forall>x\<in>set (runs pre). fst x = c \<or> fst x = Sleep10) \<and> spawns pre = []"
proof (induction pre)
  case Nil
  show ?case by simp
next
  case (Cons e pre)
  then show ?case by (cases e) (auto simp: noise_def)
qed

lemma noise_runs:
  assumes "set pre \<subseteq> range (Exec c) \<union> noise"
  shows "fst ` set (runs pre) \<subseteq> {c, Sleep10}" "spawns pre = []"
  using noise_runs' [OF assms] by auto

lemmas out_defs = outcome_def prim_defs Let_def failed_last_def checked_def latest_def packager_def
  retried_def

lemma install_cli_outcome:
  "\<not> thrown s \<Longrightarrow> outcome {YarnGlobalAddCli} {} s (install_cli w a s)"
  by (simp add: install_cli_def out_defs)

lemma android_binaries_outcome:
  "\<not> thrown s \<Longrightarrow> outcome {GradlewInstallArchives} {} s (android_binaries w a s)"
  by (simp add: android_binaries_def out_defs)

lemma npm_pack_outcome:
  "\<not> thrown s \<Longrightarrow> outcome {NpmPack} {} s (npm_pack w s)"
  by (simp add: npm_pack_def out_defs)

lemma install_flow_outcome:
  assumes "\<not> thrown s"
  shows "outcome {NpmInstallFlowBin, Sleep10} {} s (install_flow w a s)"
proof (cases "js a")
  case False
  with assms show ?thesis by (simp add: install_flow_def outcome_refl)
next
  case True
  obtain pre code where p:
    "tryExecNTimes (exec w NpmInstallFlowBin) (numberOfRetries a) (Some (exec' w Sleep10)) s =
       (code, s\<lparr>trace := trace s @ pre @ [Exec NpmInstallFlowBin code]\<rparr>)"
    "set pre \<subseteq> range (Exec NpmInstallFlowBin) \<union> noise"
    "\<forall>k ys. stops_at_failure (runs pre @ (NpmInstallFlowBin, k) # ys) = stops_at_failure ((NpmInstallFlowBin, k) # ys)"
    by (rule retried_exec [of "Some (exec' w Sleep10)" w NpmInstallFlowBin "numberOfRetries a" s]) (simp_all add: retried_def)
  note n = noise_runs [OF p(2)] p(3)
  show ?thesis
    using assms True n by (simp add: install_flow_def p(1) out_defs)
qed

lemma react_native_init_outcome:
  assumes "\<not> thrown s"
  shows "outcome {RnInit, Sleep10} {} s (react_native_init w a s)"
proof -
  define s0 where "s0 = echo ''Creating EndToEndTest React Native app'' (emit (Cd ''TEMP'') s)"
  obtain pre code where p:
    "tryExecNTimes (exec w RnInit) (numberOfRetries a) (Some (remove_partial_project w)) s0 =
       (code, s0\<lparr>trace := trace s0 @ pre @ [Exec RnInit code]\<rparr>)"
    "set pre \<subseteq> range (Exec RnInit) \<union> noise"
    "\<forall>k ys. stops_at_failure (runs pre @ (RnInit, k) # ys) = stops_at_failure ((RnInit, k) # ys)"
    by (rule retried_exec [of "Some (remove_partial_project w)" w RnInit "numberOfRetries a" s0]) (simp_all add: retried_def)
  note n = noise_runs [OF p(2)] p(3)
  show ?thesis
    using assms n unfolding react_native_init_def s0_def [symmetric] p(1)
    by (simp add: s0_def out_defs)
qed

lemma npm_install_outcome:
  assumes "\<not> thrown s"
  shows "outcome {NpmInstallPackage, NpmInstall, Sleep10} {} s (npm_install w a s)"
proof -
  define s0 where "s0 = echo ''Installing node_modules'' (exec' w NpmInstallPackage
    (echo ''Installing React Native package'' (emit (Cd ''EndToEndTest'')
      (emit (Cp ''ROOT/rn-get-polyfills.js'' ''EndToEndTest/.'')
        (emit (Cp ''ROOT/metro.config.js'' ''EndToEndTest/.'') s)))))"
  obtain pre code where p:
    "tryExecNTimes (exec w NpmInstall) (numberOfRetries a) (Some (exec' w Sleep10)) s0 =
       (code, s0\<lparr>trace := trace s0 @ pre @ [Exec NpmInstall code]\<rparr>)"
    "set pre \<subseteq> range (Exec NpmInstall) \<union> noise"
    "\<forall>k ys. stops_at_failure (runs pre @ (NpmInstall, k) # ys) = stops_at_failure ((NpmInstall, k) # ys)"
    by (rule retried_exec [of "Some (exec' w Sleep10)" w NpmInstall "numberOfRetries a" s0]) (simp_all add: retried_def)
  note n = noise_runs [OF p(2)] p(3)
  from n(1) have n': "fst ` set (runs pre) \<subseteq> {NpmInstallPackage, NpmInstall, Sleep10}" by blast
  have "npm_install w a s =
      (if code \<noteq> 0 then
         fail (echo ''Most common reason is npm registry connectivity, try again''
                (echo ''Failed to execute npm install''
                   (s0\<lparr>trace := trace s0 @ pre @ [Exec NpmInstall code]\<rparr>)))
       else s0\<lparr>trace := trace s0 @ pre @ [Exec NpmInstall code]\<rparr>)"
    unfolding npm_install_def Let_def s0_def [symmetric] p(1) by simp
  then show ?thesis
    using assms n n' by (simp add: s0_def out_defs)
qed

lemma android_framework_outcome:
  assumes "\<not> thrown s"
  shows "outcome {YarnAddAppium, Sleep10} {} s (android_framework w a s)"
proof -
  define s0 where "s0 = echo ''Installing end-to-end framework''
    (describe ''Executing Android end-to-end tests'' s)"
  obtain pre code where p:
    "tryExecNTimes (exec w YarnAddAppium) (numberOfRetries a) None s0 =
       (code, s0\<lparr>trace := trace s0 @ pre @ [Exec YarnAddAppium code]\<rparr>)"
    "set pre \<subseteq> range (Exec YarnAddAppium) \<union> noise"
    "\<forall>k ys. stops_at_failure (runs pre @ (YarnAddAppium, k) # ys) = stops_at_failure ((YarnAddAppium, k) # ys)"
    by (rule retried_exec [of None w YarnAddAppium "numberOfRetries a" s0]) (simp_all add: retried_def)
  note n = noise_runs [OF p(2)] p(3)
  have "android_framework w a s =
      (if code \<noteq> 0 then
         fail (echo ''Most common reason is npm registry connectivity, try again''
                (echo ''Failed to install appium''
                   (s0\<lparr>trace := trace s0 @ pre @ [Exec YarnAddAppium code]\<rparr>)))
       else s0\<lparr>trace := trace s0 @ pre @ [Exec YarnAddAppium code]\<rparr>)"
    unfolding android_framework_def Let_def s0_def [symmetric] p(1) by simp
  then show ?thesis
    using assms n by (simp add: s0_def out_defs)
qed

lemma android_keystore_outcome:
  "\<not> thrown s \<Longrightarrow> outcome {GradlewCopyDeps, RmKeystore, Keytool} {} s (android_keystore w s)"
  by (simp add: android_keystore_def out_defs)

lemma android_app_outcome:
  "\<not> thrown s \<Longrightarrow> outcome {RnRunAndroid} {Appium} s (android_app w s)"
  by (simp add: android_app_def out_defs)

lemma android_e2e_outcome:
  assumes "\<not> thrown s"
  shows "outcome {Sleep15, Mocha, Sleep10} {PackagerAndroid} s (android_e2e w a s)"
proof -
  define s1 where "s1 = echo_pid ''Starting packager server, '' (SERVER_PID s) s"
  define s0 where "s0 = describe ''Test: Android end-to-end test'' (exec' w Sleep15
    ((snd (spawn w PackagerAndroid s1))\<lparr>SERVER_PID := fst (spawn w PackagerAndroid s1)\<rparr>))"
  obtain pre code where p:
    "tryExecNTimes (exec w Mocha) (numberOfRetries a) (Some (exec' w Sleep10)) s0 =
       (code, s0\<lparr>trace := trace s0 @ pre @ [Exec Mocha code]\<rparr>)"
    "set pre \<subseteq> range (Exec Mocha) \<union> noise"
    "\<forall>k ys. stops_at_failure (runs pre @ (Mocha, k) # ys) = stops_at_failure ((Mocha, k) # ys)"
    by (rule retried_exec [of "Some (exec' w Sleep10)" w Mocha "numberOfRetries a" s0]) (simp_all add: retried_def)
  note n = noise_runs [OF p(2)] p(3)
  from n(1) have n': "fst ` set (runs pre) \<subseteq> {Sleep15, Mocha, Sleep10}" by blast
  have "android_e2e w a s =
      (if code \<noteq> 0 then
         fail (echo ''Most likely the code is broken''
                (echo ''Failed to run Android end-to-end tests''
                   (s0\<lparr>trace := trace s0 @ pre @ [Exec Mocha code]\<rparr>)))
       else s0\<lparr>trace := trace s0 @ pre @ [Exec Mocha code]\<rparr>)"
    unfolding android_e2e_def Let_def case_prod_beta s1_def [symmetric] s0_def [symmetric] p(1)
    by simp
  then show ?thesis
    using assms n n' by (simp add: s0_def s1_def out_defs)
qed

lemma android_tests_outcome:
  assumes "\<not> thrown s"
  shows "outcome android_cmds {Appium, PackagerAndroid} s (android_tests w a s)"
proof (cases "android a")
  case False
  with assms show ?thesis by (simp add: android_tests_def outcome_refl)
next
  case True
  have "outcome android_cmds {Appium, PackagerAndroid} s
          (run_stages [android_framework w a, android_keystore w, android_app w,
                       android_e2e w a] s)"
  proof (rule outcome_run_stages [OF _ assms])
    fix f :: "state \<Rightarrow> state" and s :: state
    assume f: "f \<in> set [android_framework w a, android_keystore w, android_app w,
                          android_e2e w a]" and s: "\<not> thrown s"
    from f consider "f = android_framework w a" | "f = android_keystore w"
      | "f = android_app w" | "f = android_e2e w a" by auto
    then show "outcome android_cmds {Appium, PackagerAndroid} s (f s)"
    proof cases
      case 1
      show ?thesis unfolding 1
        by (rule outcome_mono [OF android_framework_outcome [OF s]])
           (simp_all add: android_cmds_def)
    next
      case 2
      show ?thesis unfolding 2
        by (rule outcome_mono [OF android_keystore_outcome [OF s]])
           (simp_all add: android_cmds_def)
    next
      case 3
      show ?thesis unfolding 3
        by (rule outcome_mono [OF android_app_outcome [OF s]])
           (simp_all add: android_cmds_def)
    next
      case 4
      show ?thesis unfolding 4
        by (rule outcome_mono [OF android_e2e_outcome [OF s]])
           (simp_all add: android_cmds_def)
    qed
  qed
  with True show ?thesis by (simp add: android_tests_def)
qed

lemma ios_tests_fields:
  assumes "ios a \<or> tvos a"
  obtains pre code pid t1 t2 where
    "trace (ios_tests w a s) = trace s @ t1 @ pre @ Exec (xcodebuild a) code # t2"
    "set pre \<subseteq> range (Exec (xcodebuild a)) \<union> noise"
    "spawns t1 = [(PackagerIos, pid)]" "map fst (runs t1) = [Sleep15, CurlWarmup, PodInstall]"
    "spawns t2 = []" "runs t2 = []"
    "SERVER_PID (ios_tests w a s) = pid" "APPIUM_PID (ios_tests w a s) = APPIUM_PID s"
    "thrown (ios_tests w a s) \<longleftrightarrow> thrown s \<or> code \<noteq> 0"
    "code \<noteq> 0 \<longrightarrow> exitCode (ios_tests w a s) = Some 1"
    "\<forall>k ys. stops_at_failure (runs pre @ (xcodebuild a, k) # ys) =
          stops_at_failure ((xcodebuild a, k) # ys)"
    "int (attempts_of (xcodebuild a) (runs pre)) < max 1 (numberOfRetries a)"
    "code \<noteq> 0 \<longrightarrow> int (attempts_of (xcodebuild a) (runs pre)) + 1 = max 1 (numberOfRetries a)"
proof -
  have xk: "retried (xcodebuild a)" "xcodebuild a \<noteq> Sleep10"
    by (cases "tvos a"; simp add: xcodebuild_def retried_def)+
  define s1 where "s1 = emit (Cd ''ios'')
     (describe (''Executing '' @ iosTestType a @ '' end-to-end tests'') s)"
  define s4 where "s4 = (snd (spawn w PackagerIos s1))\<lparr>SERVER_PID := fst (spawn w PackagerIos s1)\<rparr>"
  define s6 where "s6 = exec' w CurlWarmup (exec' w Sleep15 s4)"
  define s0 where "s0 = describe (''Test: '' @ iosTestType a @ '' end-to-end test'')
     (exec' w PodInstall (echo ''Running pod install''
        (echo_pid ''Starting packager server, '' (SERVER_PID s6) s6)))"
  obtain pre code where p:
    "tryExecNTimes (exec w (xcodebuild a)) (numberOfRetries a) (Some (exec' w Sleep10)) s0 =
       (code, s0\<lparr>trace := trace s0 @ pre @ [Exec (xcodebuild a) code]\<rparr>)"
    "set pre \<subseteq> range (Exec (xcodebuild a)) \<union> noise"
    "\<forall>k ys. stops_at_failure (runs pre @ (xcodebuild a, k) # ys) =
          stops_at_failure ((xcodebuild a, k) # ys)"
    "int (attempts_of (xcodebuild a) (runs pre)) < max 1 (numberOfRetries a)"
    "code \<noteq> 0 \<longrightarrow> int (attempts_of (xcodebuild a) (runs pre)) + 1 = max 1 (numberOfRetries a)"
    by (rule retried_exec [of "Some (exec' w Sleep10)" w "xcodebuild a" "numberOfRetries a" s0])
       (simp_all add: xk)
  define s' where "s' = s0\<lparr>trace := trace s0 @ pre @ [Exec (xcodebuild a) code]\<rparr>"
  have eq: "ios_tests w a s =
      (if code \<noteq> 0 then
         fail (echo ''Most likely the code is broken''
                (echo (''Failed to run '' @ iosTestType a @ '' end-to-end tests'') s'))
       else emit (Cd ''..'') s')"
    using assms
    unfolding ios_tests_def Let_def case_prod_beta s1_def [symmetric] s4_def [symmetric]
      s6_def [symmetric] s0_def [symmetric] p(1) s'_def
    by simp
  define pid where "pid = spawn_pid w (trace s1) PackagerIos"
  define t1 where "t1 = drop (length (trace s)) (trace s0)"
  define t2 where "t2 = drop (length (trace s')) (trace (ios_tests w a s))"
  have s0: "trace s0 = trace s @ t1" "SERVER_PID s0 = pid" "APPIUM_PID s0 = APPIUM_PID s"
    "thrown s0 = thrown s"
    unfolding t1_def pid_def s0_def s6_def s4_def
    by (simp_all add: prim_defs Let_def s1_def)
  have t1: "spawns t1 = [(PackagerIos, pid)]" "map fst (runs t1) = [Sleep15, CurlWarmup, PodInstall]"
    unfolding t1_def pid_def s0_def s6_def s4_def
    by (simp_all add: prim_defs Let_def s1_def)
  have t2: "trace (ios_tests w a s) = trace s' @ t2" "spawns t2 = []" "runs t2 = []"
    unfolding t2_def eq by (simp_all add: prim_defs)
  show thesis
  proof (rule that [of t1 pre code t2 pid])
    show "trace (ios_tests w a s) = trace s @ t1 @ pre @ Exec (xcodebuild a) code # t2"
      unfolding t2(1) by (simp add: s'_def s0(1))
    show "SERVER_PID (ios_tests w a s) = pid" "APPIUM_PID (ios_tests w a s) = APPIUM_PID s"
      "thrown (ios_tests w a s) \<longleftrightarrow> thrown s \<or> code \<noteq> 0"
      "code \<noteq> 0 \<longrightarrow> exitCode (ios_tests w a s) = Some 1"
      unfolding eq using s0(2,3,4) by (simp_all add: s'_def prim_defs)
  qed (fact p(2,3,4,5) t1 t2(2,3))+
qed

lemma ios_tests_outcome:
  assumes "\<not> thrown s"
  shows "outcome {Sleep15, CurlWarmup, PodInstall, Sleep10, xcodebuild a} {PackagerIos} s
           (ios_tests w a s)"
proof (cases "ios a \<or> tvos a")
  case False
  with assms show ?thesis by (simp add: ios_tests_def outcome_refl)
next
  case True
  from ios_tests_fields [OF True, of w s] obtain pre code pid t1 t2 where f:
    "trace (ios_tests w a s) = trace s @ t1 @ pre @ Exec (xcodebuild a) code # t2"
    "set pre \<subseteq> range (Exec (xcodebuild a)) \<union> noise"
    "spawns t1 = [(PackagerIos, pid)]" "map fst (runs t1) = [Sleep15, CurlWarmup, PodInstall]"
    "spawns t2 = []" "runs t2 = []"
    "SERVER_PID (ios_tests w a s) = pid" "APPIUM_PID (ios_tests w a s) = APPIUM_PID s"
    "thrown (ios_tests w a s) \<longleftrightarrow> thrown s \<or> code \<noteq> 0"
    "code \<noteq> 0 \<longrightarrow> exitCode (ios_tests w a s) = Some 1"
    "\<forall>k ys. stops_at_failure (runs pre @ (xcodebuild a, k) # ys) =
          stops_at_failure ((xcodebuild a, k) # ys)"
    by metis
  note n = noise_runs [OF f(2)]
  have u1: "\<forall>x\<in>set (runs t1). \<not> checked (fst x)"
  proof
    fix x
    assume "x \<in> set (runs t1)"
    then have "fst x \<in> set (map fst (runs t1))" by simp
    then show "\<not> checked (fst x)" unfolding f(4) by (auto simp: checked_def)
  qed
  have r1: "fst ` set (runs t1) = {Sleep15, CurlWarmup, PodInstall}"
    using f(4) by (metis list.set_map list.simps(15) empty_set)
  have ck: "checked (xcodebuild a)" by (simp add: xcodebuild_def checked_def)
  show ?thesis
    unfolding outcome_def
  proof (intro exI [of _ "t1 @ pre @ Exec (xcodebuild a) code # t2"] conjI)
    show "trace (ios_tests w a s) = trace s @ t1 @ pre @ Exec (xcodebuild a) code # t2"
      by (fact f(1))
    show "fst ` set (runs (t1 @ pre @ Exec (xcodebuild a) code # t2))
            \<subseteq> {Sleep15, CurlWarmup, PodInstall, Sleep10, xcodebuild a}"
      using n(1) r1 f(6) by (auto simp: image_Un)
    show "fst ` set (spawns (t1 @ pre @ Exec (xcodebuild a) code # t2)) \<subseteq> {PackagerIos}"
      using n(2) f(3,5) by simp
    show "thrown (ios_tests w a s) = failed_last (runs (t1 @ pre @ Exec (xcodebuild a) code # t2))"
      using f(9) assms f(6) ck by (simp add: failed_last_def)
    show "thrown (ios_tests w a s) \<longrightarrow> exitCode (ios_tests w a s) = Some 1"
      using f(9,10) assms by simp
    show "SERVER_PID (ios_tests w a s) =
            latest packager (SERVER_PID s) (t1 @ pre @ Exec (xcodebuild a) code # t2)"
      using f(7,3,5) n(2) by (simp add: latest_def packager_def)
    show "APPIUM_PID (ios_tests w a s) =
            latest (\<lambda>p. p = Appium) (APPIUM_PID s) (t1 @ pre @ Exec (xcodebuild a) code # t2)"
      using f(8,3,5) n(2) by (simp add: latest_def)
    show "stops_at_failure (runs (t1 @ pre @ Exec (xcodebuild a) code # t2))"
      using stops_at_failure_unchecked [OF u1] f(11) f(6) by simp
  qed
qed

lemma bundle_android_outcome:
  "\<not> thrown s \<Longrightarrow> outcome {BundleAndroid} {} s (bundle_android w s)"
  by (simp add: bundle_android_def out_defs)

lemma bundle_ios_outcome:
  "\<not> thrown s \<Longrightarrow> outcome {BundleIos} {} s (bundle_ios w s)"
  by (simp add: bundle_ios_def out_defs)

lemma flow_check_outcome:
  "\<not> thrown s \<Longrightarrow> outcome {FlowCheck} {} s (flow_check w s)"
  by (simp add: flow_check_def out_defs)

lemma succeed_outcome:
  "\<not> thrown s \<Longrightarrow> outcome {} {} s (succeed s)"
  by (simp add: out_defs)

lemma js_tests_outcome:
  assumes "\<not> thrown s"
  shows "outcome {BundleAndroid, BundleIos, FlowCheck} {} s (js_tests w a s)"
proof (cases "js a")
  case False
  with assms show ?thesis by (simp add: js_tests_def outcome_refl)
next
  case True
  have "outcome {BundleAndroid, BundleIos, FlowCheck} {} s
          (run_stages [bundle_android w, bundle_ios w, flow_check w] s)"
  proof (rule outcome_run_stages [OF _ assms])
    fix f :: "state \<Rightarrow> state" and s :: state
    assume f: "f \<in> set [bundle_android w, bundle_ios w, flow_check w]" and s: "\<not> thrown s"
    from f consider "f = bundle_android w" | "f = bundle_ios w" | "f = flow_check w" by auto
    then show "outcome {BundleAndroid, BundleIos, FlowCheck} {} s (f s)"
    proof cases
      case 1
      show ?thesis unfolding 1
        by (rule outcome_mono [OF bundle_android_outcome [OF s]]) simp_all
    next
      case 2
      show ?thesis unfolding 2
        by (rule outcome_mono [OF bundle_ios_outcome [OF s]]) simp_all
    next
      case 3
      show ?thesis unfolding 3
        by (rule outcome_mono [OF flow_check_outcome [OF s]]) simp_all
    qed
  qed
  with True show ?thesis by (simp add: js_tests_def)
qed

text \<open>The stages before the ios/tvos branch, and those after it.\<close>

lemma stages_split:
  "stages w a = early_stages w a @ [ios_tests w a] @ [js_tests w a, succeed]"
  by (simp add: stages_def early_stages_def)

lemma early_stages_outcome:
  assumes "\<not> thrown s"
  shows "outcome early_cmds {Appium, PackagerAndroid} s (run_stages (early_stages w a) s)"
proof (rule outcome_run_stages [OF _ assms])
  fix f :: "state \<Rightarrow> state" and s :: state
  assume f: "f \<in> set (early_stages w a)" and s: "\<not> thrown s"
  from f consider "f = install_cli w a" | "f = android_binaries w a" | "f = install_flow w a"
    | "f = npm_pack w" | "f = react_native_init w a" | "f = npm_install w a"
    | "f = android_tests w a"
    by (auto simp: early_stages_def)
  then show "outcome early_cmds {Appium, PackagerAndroid} s (f s)"
  proof cases
    case 1
    show ?thesis unfolding 1
      by (rule outcome_mono [OF install_cli_outcome [OF s]])
         (simp_all add: early_cmds_def cleanup_def is_xcodebuild_def)
  next
    case 2
    show ?thesis unfolding 2
      by (rule outcome_mono [OF android_binaries_outcome [OF s]])
         (simp_all add: early_cmds_def cleanup_def is_xcodebuild_def)
  next
    case 3
    show ?thesis unfolding 3
      by (rule outcome_mono [OF install_flow_outcome [OF s]])
         (simp_all add: early_cmds_def cleanup_def is_xcodebuild_def)
  next
    case 4
    show ?thesis unfolding 4
      by (rule outcome_mono [OF npm_pack_outcome [OF s]])
         (simp_all add: early_cmds_def cleanup_def is_xcodebuild_def)
  next
    case 5
    show ?thesis unfolding 5
      by (rule outcome_mono [OF react_native_init_outcome [OF s]])
         (simp_all add: early_cmds_def cleanup_def is_xcodebuild_def)
  next
    case 6
    show ?thesis unfolding 6
      by (rule outcome_mono [OF npm_install_outcome [OF s]])
         (simp_all add: early_cmds_def cleanup_def is_xcodebuild_def)
  next
    case 7
    show ?thesis unfolding 7
      by (rule outcome_mono [OF android_tests_outcome [OF s]])
         (simp_all add: early_cmds_def android_cmds_def cleanup_def is_xcodebuild_def)
  qed
qed

lemma late_stages_outcome:
  assumes "\<not> thrown s"
  shows "outcome early_cmds {} s (run_stages [js_tests w a, succeed] s)"
proof (rule outcome_run_stages [OF _ assms])
  fix f :: "state \<Rightarrow> state" and s :: state
  assume f: "f \<in> set [js_tests w a, succeed]" and s: "\<not> thrown s"
  from f consider "f = js_tests w a" | "f = succeed" by auto
  then show "outcome early_cmds {} s (f s)"
  proof cases
    case 1
    show ?thesis unfolding 1
      by (rule outcome_mono [OF js_tests_outcome [OF s]])
         (simp_all add: early_cmds_def cleanup_def is_xcodebuild_def)
  next
    case 2
    show ?thesis unfolding 2
      by (rule outcome_mono [OF succeed_outcome [OF s]]) simp_all
  qed
qed

lemma xcodebuild_kind [simp]:
  "\<not> cleanup (xcodebuild a)" "checked (xcodebuild a)" "is_xcodebuild (xcodebuild a)"
  by (cases "tvos a"; simp add: xcodebuild_def cleanup_def checked_def is_xcodebuild_def)+

lemma try_block_outcome:
  assumes "\<not> thrown s"
  shows "outcome {c. \<not> cleanup c} UNIV s (try_block w a s)"
proof -
  let ?A = "{c. \<not> cleanup c}"
  let ?s1 = "run_stages (early_stages w a) s"
  let ?s2 = "run_stages [ios_tests w a] ?s1"
  have 1: "outcome ?A UNIV s ?s1"
    by (rule outcome_mono [OF early_stages_outcome [OF assms]]) (auto simp: early_cmds_def)
  have ios: "{Sleep15, CurlWarmup, PodInstall, Sleep10, xcodebuild a} \<subseteq> ?A"
    using xcodebuild_kind(1) [of a] by (simp add: cleanup_def)
  have 2: "outcome ?A UNIV ?s1 ?s2" if "\<not> thrown ?s1"
    using outcome_mono [OF ios_tests_outcome [OF that] ios, of UNIV w] that by simp
  have 3: "outcome ?A UNIV ?s2 (run_stages [js_tests w a, succeed] ?s2)" if "\<not> thrown ?s2"
    by (rule outcome_mono [OF late_stages_outcome [OF that]]) (auto simp: early_cmds_def)
  have eq: "try_block w a s = run_stages [js_tests w a, succeed] ?s2"
    by (simp only: try_block_def stages_split run_stages_append)
  show ?thesis
  proof (cases "thrown ?s1")
    case True
    with 1 show ?thesis by (simp add: eq)
  next
    case False
    note 12 = outcome_trans [OF 1 False 2 [OF False]]
    show ?thesis
    proof (cases "thrown ?s2")
      case True
      with 12 show ?thesis unfolding eq by simp
    next
      case False
      from outcome_trans [OF 12 False 3 [OF False]] show ?thesis unfolding eq .
    qed
  qed
qed

lemma finally_fields:
  obtains fin where "trace (finally_block w s) = trace s @ fin"
    "map fst (runs fin) = expected_kills (SERVER_PID s) (APPIUM_PID s)"
    "spawns fin = []" "thrown (finally_block w s) = thrown s"
    "exitCode (finally_block w s) = exitCode s"
proof -
  define fin where "fin = drop (length (trace s)) (trace (finally_block w s))"
  have 1: "trace (finally_block w s) = trace s @ fin"
    unfolding fin_def
    by (simp add: finally_block_def kill_packager_def kill_appium_def prim_defs Let_def
        split: option.splits)
  have 2: "map fst (runs fin) = expected_kills (SERVER_PID s) (APPIUM_PID s)"
    "spawns fin = []"
    unfolding fin_def
    by (simp_all add: finally_block_def kill_packager_def kill_appium_def prim_defs Let_def
        expected_kills_def truthy_def split: option.splits)
  have 3: "thrown (finally_block w s) = thrown s" "exitCode (finally_block w s) = exitCode s"
    by (simp_all add: finally_block_def kill_packager_def kill_appium_def prim_defs Let_def
        split: option.splits)
  from 1 2 3 show thesis by (rule that)
qed

lemma expected_kills_cleanup: "filter cleanup (expected_kills p q) = expected_kills p q"
  "filter (\<lambda>c. \<not> cleanup c) (expected_kills p q) = []"
  by (simp_all add: expected_kills_def cleanup_def)

lemma work_map: "map fst (work t) = filter (\<lambda>c. \<not> cleanup c) (map fst (runs t))"
  by (simp add: work_def filter_map comp_def)

lemma work_append [simp]: "work (t @ u) = work t @ work u"
  by (simp add: work_def)

lemma kills_append [simp]: "kills (t @ u) = kills t @ kills u"
  by (simp add: kills_def)

lemma work_all: "fst ` set (runs d) \<subseteq> {c. \<not> cleanup c} \<Longrightarrow> work d = runs d \<and> kills d = []"
  by (auto simp: work_def kills_def filter_id_conv filter_empty_conv)

lemma try_block_exitCode:
  assumes "\<not> thrown (try_block w a s)"
  shows "exitCode (try_block w a s) = Some 0"
proof -
  let ?s2 = "run_stages ((early_stages w a @ [ios_tests w a]) @ [js_tests w a]) s"
  have eq: "try_block w a s = run_stages [succeed] ?s2"
    by (simp only: try_block_def stages_split run_stages_append append_Cons append_Nil
        run_stages.simps) (simp add: run_stages_append)
  show ?thesis
  proof (cases "thrown ?s2")
    case True
    with assms eq show ?thesis by simp
  next
    case False
    then show ?thesis unfolding eq by (simp add: succeed_def)
  qed
qed

lemma script_parts:
  obtains k d fin where
    "trace (try_block w a (before_try w)) = Exec Mktemp k # d"
    "trace (script w a) = Exec Mktemp k # d @ fin"
    "fst ` set (runs d) \<subseteq> {c. \<not> cleanup c}"
    "thrown (script w a) \<longleftrightarrow> failed_last (runs d)"
    "thrown (script w a) \<longrightarrow> exitCode (script w a) = Some 1"
    "\<not> thrown (script w a) \<longrightarrow> exitCode (script w a) = Some 0"
    "SERVER_PID (try_block w a (before_try w)) = latest packager None d"
    "APPIUM_PID (try_block w a (before_try w)) = latest (\<lambda>p. p = Appium) None d"
    "map fst (runs fin) = expected_kills (latest packager None d) (latest (\<lambda>p. p = Appium) None d)"
    "spawns fin = []"
    "stops_at_failure (runs d)"
proof -
  let ?s0 = "before_try w" and ?s1 = "try_block w a (before_try w)"
  define k where "k = exec_code w [] Mktemp"
  have s0: "trace ?s0 = [Exec Mktemp k]" "\<not> thrown ?s0" "SERVER_PID ?s0 = None"
    "APPIUM_PID ?s0 = None"
    by (simp_all add: before_try_def init_def prim_defs Let_def k_def)
  from try_block_outcome [OF s0(2), of w a] obtain d where d:
    "trace ?s1 = trace ?s0 @ d" "fst ` set (runs d) \<subseteq> {c. \<not> cleanup c}"
    "fst ` set (spawns d) \<subseteq> UNIV" "thrown ?s1 \<longleftrightarrow> failed_last (runs d)"
    "thrown ?s1 \<longrightarrow> exitCode ?s1 = Some 1"
    "SERVER_PID ?s1 = latest packager (SERVER_PID ?s0) d"
    "APPIUM_PID ?s1 = latest (\<lambda>p. p = Appium) (APPIUM_PID ?s0) d"
    "stops_at_failure (runs d)"
    by (rule outcomeE)
  obtain fin where fin: "trace (finally_block w ?s1) = trace ?s1 @ fin"
    "map fst (runs fin) = expected_kills (SERVER_PID ?s1) (APPIUM_PID ?s1)"
    "spawns fin = []" "thrown (finally_block w ?s1) = thrown ?s1"
    "exitCode (finally_block w ?s1) = exitCode ?s1"
    by (rule finally_fields)
  show thesis
  proof (rule that [of k d fin])
    show "trace ?s1 = Exec Mktemp k # d" using d(1) s0(1) by simp
    show "trace (script w a) = Exec Mktemp k # d @ fin"
      using d(1) s0(1) fin(1) by (simp add: script_def)
    show "fst ` set (runs d) \<subseteq> {c. \<not> cleanup c}" by (fact d(2))
    show "thrown (script w a) \<longleftrightarrow> failed_last (runs d)"
      using fin(4) d(4) by (simp add: script_def)
    show "thrown (script w a) \<longrightarrow> exitCode (script w a) = Some 1"
      using fin(4,5) d(5) by (simp add: script_def)
    show "\<not> thrown (script w a) \<longrightarrow> exitCode (script w a) = Some 0"
      using fin(4,5) try_block_exitCode [of w a ?s0] by (simp add: script_def)
    show "SERVER_PID ?s1 = latest packager None d" using d(6) s0(3) by simp
    show "APPIUM_PID ?s1 = latest (\<lambda>p. p = Appium) None d" using d(7) s0(4) by simp
    show "map fst (runs fin) =
        expected_kills (latest packager None d) (latest (\<lambda>p. p = Appium) None d)"
      using fin(2) d(6,7) s0(3,4) by simp
    show "spawns fin = []" by (fact fin(3))
    show "stops_at_failure (runs d)" by (fact d(8))
  qed
qed

subsection \<open>Single scenarios\<close>

text \<open>
  Claim C7. If the setup stage runs (\<^verbatim>\<open>--skip-cli-install\<close> is not given) and its command
  \<^verbatim>\<open>yarn global add react-native-cli\<close> fails, the whole run consists of \<^verbatim>\<open>mktemp\<close>, the
  failed command and the two messages: no command of a later stage is run, the
  \<^verbatim>\<open>finally\<close> block has no process to kill, the error leaves the script uncaught, and the
  exit status is 1.
\<close>

theorem setup_failure_is_fatal:
  assumes "\<not> skip_cli_install a"
    and "exec_code w [Exec Mktemp (exec_code w [] Mktemp)] YarnGlobalAddCli \<noteq> 0"
  shows "run w a =
           ([Exec Mktemp (exec_code w [] Mktemp),
             Exec YarnGlobalAddCli
               (exec_code w [Exec Mktemp (exec_code w [] Mktemp)] YarnGlobalAddCli),
             Echo [Lit ''Could not install react-native-cli globally.''],
             Echo [Lit ''Run with --skip-cli-install to skip this step'']],
            Uncaught)
         \<and> status (snd (run w a)) = 1"
  using assms by (simp add: end_defs prim_defs install_cli_def Let_def)

theorem setup_failure_is_fatal_witness:
  "\<not> skip_cli_install no_flags \<and>
   exec_code (failing YarnGlobalAddCli)
     [Exec Mktemp (exec_code (failing YarnGlobalAddCli) [] Mktemp)] YarnGlobalAddCli \<noteq> 0 \<and>
   run (failing YarnGlobalAddCli) no_flags =
     ([Exec Mktemp 0, Exec YarnGlobalAddCli 1,
       Echo [Lit ''Could not install react-native-cli globally.''],
       Echo [Lit ''Run with --skip-cli-install to skip this step'']],
      Uncaught) \<and>
   status (snd (run (failing YarnGlobalAddCli) no_flags)) = 1"
proof -
  have h1: "\<not> skip_cli_install no_flags" by (simp add: no_flags_def)
  have h2: "exec_code (failing YarnGlobalAddCli)
     [Exec Mktemp (exec_code (failing YarnGlobalAddCli) [] Mktemp)] YarnGlobalAddCli \<noteq> 0"
    by (simp add: failing_def calm_def)
  show ?thesis
    using h1 h2 setup_failure_is_fatal [OF h1 h2] by (simp add: failing_def calm_def status_def)
qed



text \<open>
  Claim C3, at the flags \<^verbatim>\<open>--android --ios\<close> in a world where every command succeeds: the
  run spawns the appium server and two packagers, the one of the android branch (129) and
  the one of the ios branch (135). The second assignment to \<^verbatim>\<open>SERVER_PID\<close> overwrites the
  first, both packagers are live from then on, and the \<^verbatim>\<open>finally\<close> block kills by
  identifier the second packager and the appium server only: no \<^verbatim>\<open>kill -9 129\<close> is run.
\<close>

theorem both_packagers_one_kill:
  "spawns (fst (run calm android_and_ios)) =
     [(Appium, Some 125), (PackagerAndroid, Some 129), (PackagerIos, Some 135)] \<and>
   kills (fst (run calm android_and_ios)) = [Kill9 135, LsofKill8081, Kill9 125] \<and>
   snd (run calm android_and_ios) = Exited 0"
  by (simp add: end_defs stage_defs prim_defs tryExecNTimes_def numberOfRetries_def
      android_and_ios_def no_flags_def calm_def kills_def cleanup_def Let_def)

subsection \<open>The whole run\<close>

lemma work_fin:
  assumes "map fst (runs fin) = expected_kills p q"
  shows "work fin = []" "kills fin = expected_kills p q"
proof -
  have "map fst (work fin) = []"
    unfolding work_map assms by (rule expected_kills_cleanup(2))
  then show "work fin = []" by simp
  show "kills fin = expected_kills p q"
    unfolding kills_def assms by (rule expected_kills_cleanup(1))
qed


lemma latest_spawned:
  assumes "latest K None t = Some pid"
  shows "\<exists>p. (p, Some pid) \<in> set (spawns t)"
proof -
  let ?xs = "filter (\<lambda>x. K (fst x)) (spawns t)"
  from assms have ne: "?xs \<noteq> []" and l: "snd (last ?xs) = Some pid"
    by (auto simp: latest_def split: if_splits)
  from ne have "last ?xs \<in> set ?xs" by (rule last_in_set)
  then have "last ?xs \<in> set (spawns t)" by simp
  with l show ?thesis by (metis prod.collapse)
qed

lemma expected_kills_target:
  assumes "Kill9 pid \<in> set (expected_kills p q)"
  shows "p = Some pid \<or> q = Some pid"
  using assms by (auto simp: expected_kills_def truthy_def split: if_splits option.splits)

lemmas eval_defs = end_defs stage_defs prim_defs tryExecNTimes_def numberOfRetries_def
  no_flags_def calm_def failing_def Let_def

lemma tryExecNTimes_3: "tryExecNTimes f 3 r s = attempts f r (Suc (Suc 0)) s"
  by (simp add: tryExecNTimes_def eval_nat_numeral)

lemma script_reached:
  "script w a = finally_block w (run_stages (drop i (stages w a)) (reached w a i))"
proof -
  have "run_stages (take i (stages w a) @ drop i (stages w a)) (before_try w) =
        run_stages (drop i (stages w a)) (reached w a i)"
    unfolding run_stages_append reached_def ..
  then show ?thesis by (simp add: script_def try_block_def)
qed

lemma finally_no_handles:
  "SERVER_PID s = None \<Longrightarrow> APPIUM_PID s = None \<Longrightarrow> finally_block w s = s"
  by (simp add: finally_block_def kill_packager_def kill_appium_def)

lemma reached_5_outcome:
  "outcome early_cmds {} (before_try w) (reached w a 5)"
proof -
  have nt: "\<not> thrown (before_try w)"
    by (simp add: before_try_def init_def prim_defs Let_def)
  have t: "take 5 (stages w a) = [install_cli w a, android_binaries w a, install_flow w a,
      npm_pack w, react_native_init w a]"
    by (simp add: stages_def)
  show ?thesis
    unfolding reached_def t
  proof (rule outcome_run_stages [OF _ nt])
    fix f :: "state \<Rightarrow> state" and s :: state
    assume f: "f \<in> set [install_cli w a, android_binaries w a, install_flow w a,
      npm_pack w, react_native_init w a]" and s: "\<not> thrown s"
    from f consider "f = install_cli w a" | "f = android_binaries w a" | "f = install_flow w a"
      | "f = npm_pack w" | "f = react_native_init w a"
      by auto
    then show "outcome early_cmds {} s (f s)"
    proof cases
      case 1
      show ?thesis unfolding 1
        by (rule outcome_mono [OF install_cli_outcome [OF s]])
           (simp_all add: early_cmds_def cleanup_def is_xcodebuild_def)
    next
      case 2
      show ?thesis unfolding 2
        by (rule outcome_mono [OF android_binaries_outcome [OF s]])
           (simp_all add: early_cmds_def cleanup_def is_xcodebuild_def)
    next
      case 3
      show ?thesis unfolding 3
        by (rule outcome_mono [OF install_flow_outcome [OF s]])
           (simp_all add: early_cmds_def cleanup_def is_xcodebuild_def)
    next
      case 4
      show ?thesis unfolding 4
        by (rule outcome_mono [OF npm_pack_outcome [OF s]])
           (simp_all add: early_cmds_def cleanup_def is_xcodebuild_def)
    next
      case 5
      show ?thesis unfolding 5
        by (rule outcome_mono [OF react_native_init_outcome [OF s]])
           (simp_all add: early_cmds_def cleanup_def is_xcodebuild_def)
    qed
  qed
qed

lemma latest_no_spawns: "fst ` set (spawns d) \<subseteq> {} \<Longrightarrow> latest K p d = p"
  by (simp add: latest_def)

lemma reached_5_pids: "SERVER_PID (reached w a 5) = None" "APPIUM_PID (reached w a 5) = None"
proof -
  from reached_5_outcome [of w a] obtain d where d: "fst ` set (spawns d) \<subseteq> {}"
    "SERVER_PID (reached w a 5) = latest packager (SERVER_PID (before_try w)) d"
    "APPIUM_PID (reached w a 5) = latest (\<lambda>p. p = Appium) (APPIUM_PID (before_try w)) d"
    by (rule outcomeE)
  show "SERVER_PID (reached w a 5) = None" "APPIUM_PID (reached w a 5) = None"
    unfolding d(2,3) latest_no_spawns [OF d(1)]
    by (simp_all add: before_try_def init_def prim_defs Let_def)
qed

subsection \<open>Counting the attempts\<close>

lemma attempts_of_Nil [simp]: "attempts_of c [] = 0"
  by (simp add: attempts_of_def)

lemma attempts_of_Cons [simp]:
  "attempts_of c (x # xs) = (if fst x = c then 1 else 0) + attempts_of c xs"
  by (simp add: attempts_of_def)

lemma attempts_of_append [simp]:
  "attempts_of c (xs @ ys) = attempts_of c xs + attempts_of c ys"
  by (simp add: attempts_of_def)

lemma attempts_of_none: "c \<notin> fst ` set rs \<Longrightarrow> attempts_of c rs = 0"
  by (induction rs) auto

lemma attempts_of_outside: "fst ` set rs \<subseteq> A \<Longrightarrow> c \<notin> A \<Longrightarrow> attempts_of c rs = 0"
  by (rule attempts_of_none) blast

text \<open>
  A sequence of stages of which one only, \<open>f\<close>, runs the command \<open>c\<close>: the command is run
  as often as \<open>f\<close> runs it, and when the sequence ends on a failure of \<open>c\<close>, it is \<open>f\<close>
  that threw.
\<close>

lemma single_stage:
  assumes others0: "\<forall>g\<in>set pre \<union> set post. \<forall>s. \<not> thrown s \<longrightarrow> outcome A UNIV s (g s)"
    and c: "c \<notin> A" and s0: "\<not> thrown s0"
    and f: "\<not> thrown (run_stages pre s0) \<Longrightarrow>
              trace (f (run_stages pre s0)) = trace (run_stages pre s0) @ d1"
    and tr: "trace (run_stages (pre @ f # post) s0) = trace s0 @ d"
  shows "attempts_of c (runs d) =
           (if thrown (run_stages pre s0) then 0 else attempts_of c (runs d1))"
    and "thrown (run_stages (pre @ f # post) s0) \<and> runs d \<noteq> [] \<and> fst (last (runs d)) = c \<longrightarrow>
           \<not> thrown (run_stages pre s0) \<and> thrown (f (run_stages pre s0)) \<and>
           (runs d1 \<noteq> [] \<longrightarrow> last (runs d1) = last (runs d))"
proof -
  let ?s1 = "run_stages pre s0"
  let ?s3 = "run_stages (pre @ f # post) s0"
  have others: "outcome A UNIV s (g s)" if "g \<in> set pre \<union> set post" "\<not> thrown s" for g s
    using others0 that by blast
  have o1: "outcome A UNIV s0 ?s1"
    by (rule outcome_run_stages [OF _ s0]) (rule others, simp)
  then obtain d0 where d0: "trace ?s1 = trace s0 @ d0" "fst ` set (runs d0) \<subseteq> A"
    "fst ` set (spawns d0) \<subseteq> UNIV" "thrown ?s1 \<longleftrightarrow> failed_last (runs d0)"
    by (rule outcomeE)
  have a0: "attempts_of c (runs d0) = 0" by (rule attempts_of_outside [OF d0(2) c])
  have eq: "?s3 = run_stages post (run_stages [f] ?s1)"
    by (simp add: run_stages_append)
  have in_A: "fst (last rs) \<noteq> c" if "fst ` set rs \<subseteq> A" "rs \<noteq> []" for rs :: "(cmd \<times> int) list"
  proof -
    from that(2) have "last rs \<in> set rs" by (rule last_in_set)
    with that(1) have "fst (last rs) \<in> A" by blast
    with c show ?thesis by blast
  qed
  have both: "attempts_of c (runs d) =
           (if thrown ?s1 then 0 else attempts_of c (runs d1)) \<and>
        (thrown ?s3 \<and> runs d \<noteq> [] \<and> fst (last (runs d)) = c \<longrightarrow>
           \<not> thrown ?s1 \<and> thrown (f ?s1) \<and>
           (runs d1 \<noteq> [] \<longrightarrow> last (runs d1) = last (runs d)))"
  proof (cases "thrown ?s1")
    case True
    then have "?s3 = ?s1" by (simp add: eq)
    with tr d0(1) have d: "d = d0" by simp
    show ?thesis
      using True a0 in_A [OF d0(2)] by (auto simp: d)
  next
    case nt1: False
    let ?s2 = "f ?s1"
    have s2: "trace ?s2 = trace s0 @ d0 @ d1" using f [OF nt1] d0(1) by simp
    show ?thesis
    proof (cases "thrown ?s2")
      case True
      then have "?s3 = ?s2" using nt1 by (simp add: eq)
      with tr s2 have d: "d = d0 @ d1" by simp
      show ?thesis using nt1 True a0 by (simp add: d)
    next
      case nt2: False
      have "outcome A UNIV ?s2 (run_stages post ?s2)"
        by (rule outcome_run_stages [OF _ nt2]) (rule others, simp)
      then obtain d2 where d2: "trace (run_stages post ?s2) = trace ?s2 @ d2"
        "fst ` set (runs d2) \<subseteq> A" "fst ` set (spawns d2) \<subseteq> UNIV"
        "thrown (run_stages post ?s2) \<longleftrightarrow> failed_last (runs d2)"
        by (rule outcomeE)
      have e3: "?s3 = run_stages post ?s2" using nt1 by (simp add: eq)
      with tr s2 d2(1) have d: "d = d0 @ d1 @ d2" by simp
      have a2: "attempts_of c (runs d2) = 0" by (rule attempts_of_outside [OF d2(2) c])
      have cnt: "attempts_of c (runs d) = attempts_of c (runs d1)"
        using a0 a2 by (simp add: d)
      have "\<not> (thrown ?s3 \<and> runs d \<noteq> [] \<and> fst (last (runs d)) = c)"
      proof
        assume h: "thrown ?s3 \<and> runs d \<noteq> [] \<and> fst (last (runs d)) = c"
        then have "failed_last (runs d2)" using d2(4) e3 by simp
        then have ne: "runs d2 \<noteq> []" by (simp add: failed_last_def)
        then have "last (runs d) = last (runs d2)" by (simp add: d)
        with h in_A [OF d2(2) ne] show False by simp
      qed
      then have neg: "thrown ?s3 \<and> runs d \<noteq> [] \<and> fst (last (runs d)) = c \<longrightarrow>
           \<not> thrown ?s1 \<and> thrown (f ?s1) \<and>
           (runs d1 \<noteq> [] \<longrightarrow> last (runs d1) = last (runs d))" by blast
      have "attempts_of c (runs d) =
           (if thrown ?s1 then 0 else attempts_of c (runs d1))"
        using nt1 cnt by simp
      then show ?thesis using neg by (rule conjI)
    qed
  qed
  from both show "attempts_of c (runs d) =
           (if thrown ?s1 then 0 else attempts_of c (runs d1))" ..
  from both show "thrown ?s3 \<and> runs d \<noteq> [] \<and> fst (last (runs d)) = c \<longrightarrow>
           \<not> thrown ?s1 \<and> thrown (f ?s1) \<and>
           (runs d1 \<noteq> [] \<longrightarrow> last (runs d1) = last (runs d))" ..
qed

lemma install_flow_attempts:
  assumes "\<not> thrown s" and "js a"
  obtains d where "trace (install_flow w a s) = trace s @ d"
    "int (attempts_of NpmInstallFlowBin (runs d)) \<le> max 1 (numberOfRetries a)"
    "1 \<le> attempts_of NpmInstallFlowBin (runs d)"
    "thrown (install_flow w a s) \<longrightarrow> int (attempts_of NpmInstallFlowBin (runs d)) = max 1 (numberOfRetries a)"
proof -
  obtain pre code where p:
    "tryExecNTimes (exec w NpmInstallFlowBin) (numberOfRetries a) (Some (exec' w Sleep10)) s =
       (code, s\<lparr>trace := trace s @ pre @ [Exec NpmInstallFlowBin code]\<rparr>)"
    "set pre \<subseteq> range (Exec NpmInstallFlowBin) \<union> noise"
    "int (attempts_of NpmInstallFlowBin (runs pre)) < max 1 (numberOfRetries a)"
    "code \<noteq> 0 \<longrightarrow> int (attempts_of NpmInstallFlowBin (runs pre)) + 1 = max 1 (numberOfRetries a)"
    by (rule retried_exec [of "Some (exec' w Sleep10)" w NpmInstallFlowBin "numberOfRetries a" s]) simp_all
  define s' where "s' = s\<lparr>trace := trace s @ pre @ [Exec NpmInstallFlowBin code]\<rparr>"
  have eq: "install_flow w a s =
      (if code \<noteq> 0 then
         fail (echo ''Most common reason is npm registry connectivity, try again''
                (echo ''Failed to install Flow'' s'))
       else s')"
    using assms unfolding install_flow_def Let_def case_prod_beta p(1) s'_def by simp
  define d where "d = drop (length (trace s)) (trace (install_flow w a s))"
  have tr: "trace (install_flow w a s) = trace s @ d"
    unfolding d_def eq by (simp add: s'_def prim_defs Let_def)
  have cnt: "attempts_of NpmInstallFlowBin (runs d) = attempts_of NpmInstallFlowBin (runs pre) + 1"
    unfolding d_def eq by (simp add: s'_def prim_defs Let_def)
  have th: "thrown (install_flow w a s) \<longleftrightarrow> code \<noteq> 0"
    unfolding eq using assms by (simp add: s'_def prim_defs Let_def)
  show thesis
  proof (rule that [of d])
    show "trace (install_flow w a s) = trace s @ d" by (fact tr)
    show "int (attempts_of NpmInstallFlowBin (runs d)) \<le> max 1 (numberOfRetries a)"
      using p(3) by (simp add: cnt)
    show "1 \<le> attempts_of NpmInstallFlowBin (runs d)" by (simp add: cnt)
    show "thrown (install_flow w a s) \<longrightarrow> int (attempts_of NpmInstallFlowBin (runs d)) = max 1 (numberOfRetries a)"
      using p(4) by (auto simp: cnt th)
  qed
qed

lemma react_native_init_attempts:
  assumes "\<not> thrown s"
  obtains d where "trace (react_native_init w a s) = trace s @ d"
    "int (attempts_of RnInit (runs d)) \<le> max 1 (numberOfRetries a)"
    "1 \<le> attempts_of RnInit (runs d)"
    "thrown (react_native_init w a s) \<longrightarrow> int (attempts_of RnInit (runs d)) = max 1 (numberOfRetries a)"
proof -
  define s0 where "s0 = echo ''Creating EndToEndTest React Native app'' (emit (Cd ''TEMP'') s)"
  obtain pre code where p:
    "tryExecNTimes (exec w RnInit) (numberOfRetries a) (Some (remove_partial_project w)) s0 =
       (code, s0\<lparr>trace := trace s0 @ pre @ [Exec RnInit code]\<rparr>)"
    "set pre \<subseteq> range (Exec RnInit) \<union> noise"
    "int (attempts_of RnInit (runs pre)) < max 1 (numberOfRetries a)"
    "code \<noteq> 0 \<longrightarrow> int (attempts_of RnInit (runs pre)) + 1 = max 1 (numberOfRetries a)"
    by (rule retried_exec [of "Some (remove_partial_project w)" w RnInit "numberOfRetries a" s0]) simp_all
  define s' where "s' = s0\<lparr>trace := trace s0 @ pre @ [Exec RnInit code]\<rparr>"
  have eq: "react_native_init w a s =
      (if code \<noteq> 0 then
         fail (echo ''Most common reason is npm registry connectivity, try again''
                (echo ''Failed to execute react-native init'' s'))
       else s')"
    using assms unfolding react_native_init_def Let_def case_prod_beta s0_def [symmetric] p(1) s'_def by simp
  define d where "d = drop (length (trace s)) (trace (react_native_init w a s))"
  have tr: "trace (react_native_init w a s) = trace s @ d"
    unfolding d_def eq by (simp add: s'_def s0_def prim_defs Let_def)
  have cnt: "attempts_of RnInit (runs d) = attempts_of RnInit (runs pre) + 1"
    unfolding d_def eq by (simp add: s'_def s0_def prim_defs Let_def)
  have th: "thrown (react_native_init w a s) \<longleftrightarrow> code \<noteq> 0"
    unfolding eq using assms by (simp add: s'_def s0_def prim_defs Let_def)
  show thesis
  proof (rule that [of d])
    show "trace (react_native_init w a s) = trace s @ d" by (fact tr)
    show "int (attempts_of RnInit (runs d)) \<le> max 1 (numberOfRetries a)"
      using p(3) by (simp add: cnt)
    show "1 \<le> attempts_of RnInit (runs d)" by (simp add: cnt)
    show "thrown (react_native_init w a s) \<longrightarrow> int (attempts_of RnInit (runs d)) = max 1 (numberOfRetries a)"
      using p(4) by (auto simp: cnt th)
  qed
qed

lemma npm_install_attempts:
  assumes "\<not> thrown s"
  obtains d where "trace (npm_install w a s) = trace s @ d"
    "int (attempts_of NpmInstall (runs d)) \<le> max 1 (numberOfRetries a)"
    "1 \<le> attempts_of NpmInstall (runs d)"
    "thrown (npm_install w a s) \<longrightarrow> int (attempts_of NpmInstall (runs d)) = max 1 (numberOfRetries a)"
proof -
  define s0 where "s0 = echo ''Installing node_modules'' (exec' w NpmInstallPackage
    (echo ''Installing React Native package'' (emit (Cd ''EndToEndTest'')
      (emit (Cp ''ROOT/rn-get-polyfills.js'' ''EndToEndTest/.'')
        (emit (Cp ''ROOT/metro.config.js'' ''EndToEndTest/.'') s)))))"
  obtain pre code where p:
    "tryExecNTimes (exec w NpmInstall) (numberOfRetries a) (Some (exec' w Sleep10)) s0 =
       (code, s0\<lparr>trace := trace s0 @ pre @ [Exec NpmInstall code]\<rparr>)"
    "set pre \<subseteq> range (Exec NpmInstall) \<union> noise"
    "int (attempts_of NpmInstall (runs pre)) < max 1 (numberOfRetries a)"
    "code \<noteq> 0 \<longrightarrow> int (attempts_of NpmInstall (runs pre)) + 1 = max 1 (numberOfRetries a)"
    by (rule retried_exec [of "Some (exec' w Sleep10)" w NpmInstall "numberOfRetries a" s0]) simp_all
  define s' where "s' = s0\<lparr>trace := trace s0 @ pre @ [Exec NpmInstall code]\<rparr>"
  have eq: "npm_install w a s =
      (if code \<noteq> 0 then
         fail (echo ''Most common reason is npm registry connectivity, try again''
                (echo ''Failed to execute npm install'' s'))
       else s')"
    using assms unfolding npm_install_def Let_def case_prod_beta s0_def [symmetric] p(1) s'_def by simp
  define d where "d = drop (length (trace s)) (trace (npm_install w a s))"
  have tr: "trace (npm_install w a s) = trace s @ d"
    unfolding d_def eq by (simp add: s'_def s0_def prim_defs Let_def)
  have cnt: "attempts_of NpmInstall (runs d) = attempts_of NpmInstall (runs pre) + 1"
    unfolding d_def eq by (simp add: s'_def s0_def prim_defs Let_def)
  have th: "thrown (npm_install w a s) \<longleftrightarrow> code \<noteq> 0"
    unfolding eq using assms by (simp add: s'_def s0_def prim_defs Let_def)
  show thesis
  proof (rule that [of d])
    show "trace (npm_install w a s) = trace s @ d" by (fact tr)
    show "int (attempts_of NpmInstall (runs d)) \<le> max 1 (numberOfRetries a)"
      using p(3) by (simp add: cnt)
    show "1 \<le> attempts_of NpmInstall (runs d)" by (simp add: cnt)
    show "thrown (npm_install w a s) \<longrightarrow> int (attempts_of NpmInstall (runs d)) = max 1 (numberOfRetries a)"
      using p(4) by (auto simp: cnt th)
  qed
qed

lemma android_framework_attempts:
  assumes "\<not> thrown s"
  obtains d where "trace (android_framework w a s) = trace s @ d"
    "int (attempts_of YarnAddAppium (runs d)) \<le> max 1 (numberOfRetries a)"
    "1 \<le> attempts_of YarnAddAppium (runs d)"
    "thrown (android_framework w a s) \<longrightarrow> int (attempts_of YarnAddAppium (runs d)) = max 1 (numberOfRetries a)"
proof -
  define s0 where "s0 = echo ''Installing end-to-end framework''
    (describe ''Executing Android end-to-end tests'' s)"
  obtain pre code where p:
    "tryExecNTimes (exec w YarnAddAppium) (numberOfRetries a) (None) s0 =
       (code, s0\<lparr>trace := trace s0 @ pre @ [Exec YarnAddAppium code]\<rparr>)"
    "set pre \<subseteq> range (Exec YarnAddAppium) \<union> noise"
    "int (attempts_of YarnAddAppium (runs pre)) < max 1 (numberOfRetries a)"
    "code \<noteq> 0 \<longrightarrow> int (attempts_of YarnAddAppium (runs pre)) + 1 = max 1 (numberOfRetries a)"
    by (rule retried_exec [of "None" w YarnAddAppium "numberOfRetries a" s0]) simp_all
  define s' where "s' = s0\<lparr>trace := trace s0 @ pre @ [Exec YarnAddAppium code]\<rparr>"
  have eq: "android_framework w a s =
      (if code \<noteq> 0 then
         fail (echo ''Most common reason is npm registry connectivity, try again''
                (echo ''Failed to install appium'' s'))
       else s')"
    using assms unfolding android_framework_def Let_def case_prod_beta s0_def [symmetric] p(1) s'_def by simp
  define d where "d = drop (length (trace s)) (trace (android_framework w a s))"
  have tr: "trace (android_framework w a s) = trace s @ d"
    unfolding d_def eq by (simp add: s'_def s0_def prim_defs Let_def)
  have cnt: "attempts_of YarnAddAppium (runs d) = attempts_of YarnAddAppium (runs pre) + 1"
    unfolding d_def eq by (simp add: s'_def s0_def prim_defs Let_def)
  have th: "thrown (android_framework w a s) \<longleftrightarrow> code \<noteq> 0"
    unfolding eq using assms by (simp add: s'_def s0_def prim_defs Let_def)
  show thesis
  proof (rule that [of d])
    show "trace (android_framework w a s) = trace s @ d" by (fact tr)
    show "int (attempts_of YarnAddAppium (runs d)) \<le> max 1 (numberOfRetries a)"
      using p(3) by (simp add: cnt)
    show "1 \<le> attempts_of YarnAddAppium (runs d)" by (simp add: cnt)
    show "thrown (android_framework w a s) \<longrightarrow> int (attempts_of YarnAddAppium (runs d)) = max 1 (numberOfRetries a)"
      using p(4) by (auto simp: cnt th)
  qed
qed

lemma android_e2e_attempts:
  assumes "\<not> thrown s"
  obtains d where "trace (android_e2e w a s) = trace s @ d"
    "int (attempts_of Mocha (runs d)) \<le> max 1 (numberOfRetries a)"
    "1 \<le> attempts_of Mocha (runs d)"
    "thrown (android_e2e w a s) \<longrightarrow> int (attempts_of Mocha (runs d)) = max 1 (numberOfRetries a)"
proof -
  define s1 where "s1 = echo_pid ''Starting packager server, '' (SERVER_PID s) s"
  define s0 where "s0 = describe ''Test: Android end-to-end test'' (exec' w Sleep15
    ((snd (spawn w PackagerAndroid s1))\<lparr>SERVER_PID := fst (spawn w PackagerAndroid s1)\<rparr>))"
  obtain pre code where p:
    "tryExecNTimes (exec w Mocha) (numberOfRetries a) (Some (exec' w Sleep10)) s0 =
       (code, s0\<lparr>trace := trace s0 @ pre @ [Exec Mocha code]\<rparr>)"
    "set pre \<subseteq> range (Exec Mocha) \<union> noise"
    "int (attempts_of Mocha (runs pre)) < max 1 (numberOfRetries a)"
    "code \<noteq> 0 \<longrightarrow> int (attempts_of Mocha (runs pre)) + 1 = max 1 (numberOfRetries a)"
    by (rule retried_exec [of "Some (exec' w Sleep10)" w Mocha "numberOfRetries a" s0]) simp_all
  define s' where "s' = s0\<lparr>trace := trace s0 @ pre @ [Exec Mocha code]\<rparr>"
  have eq: "android_e2e w a s =
      (if code \<noteq> 0 then
         fail (echo ''Most likely the code is broken''
                (echo ''Failed to run Android end-to-end tests'' s'))
       else s')"
    using assms unfolding android_e2e_def Let_def case_prod_beta s1_def [symmetric] s0_def [symmetric] p(1) s'_def by simp
  define d where "d = drop (length (trace s)) (trace (android_e2e w a s))"
  have tr: "trace (android_e2e w a s) = trace s @ d"
    unfolding d_def eq by (simp add: s'_def s0_def s1_def prim_defs Let_def)
  have cnt: "attempts_of Mocha (runs d) = attempts_of Mocha (runs pre) + 1"
    unfolding d_def eq by (simp add: s'_def s0_def s1_def prim_defs Let_def)
  have th: "thrown (android_e2e w a s) \<longleftrightarrow> code \<noteq> 0"
    unfolding eq using assms by (simp add: s'_def s0_def s1_def prim_defs Let_def)
  show thesis
  proof (rule that [of d])
    show "trace (android_e2e w a s) = trace s @ d" by (fact tr)
    show "int (attempts_of Mocha (runs d)) \<le> max 1 (numberOfRetries a)"
      using p(3) by (simp add: cnt)
    show "1 \<le> attempts_of Mocha (runs d)" by (simp add: cnt)
    show "thrown (android_e2e w a s) \<longrightarrow> int (attempts_of Mocha (runs d)) = max 1 (numberOfRetries a)"
      using p(4) by (auto simp: cnt th)
  qed
qed

lemma ios_tests_attempts:
  assumes "\<not> thrown s" and "ios a \<or> tvos a"
  obtains d where "trace (ios_tests w a s) = trace s @ d"
    "int (attempts_of (xcodebuild a) (runs d)) \<le> max 1 (numberOfRetries a)"
    "1 \<le> attempts_of (xcodebuild a) (runs d)"
    "thrown (ios_tests w a s) \<longrightarrow>
       int (attempts_of (xcodebuild a) (runs d)) = max 1 (numberOfRetries a)"
proof -
  from ios_tests_fields [OF assms(2), of w s] obtain pre code pid t1 t2 where f:
    "trace (ios_tests w a s) = trace s @ t1 @ pre @ Exec (xcodebuild a) code # t2"
    "map fst (runs t1) = [Sleep15, CurlWarmup, PodInstall]"
    "runs t2 = []"
    "thrown (ios_tests w a s) \<longleftrightarrow> thrown s \<or> code \<noteq> 0"
    "int (attempts_of (xcodebuild a) (runs pre)) < max 1 (numberOfRetries a)"
    "code \<noteq> 0 \<longrightarrow> int (attempts_of (xcodebuild a) (runs pre)) + 1 = max 1 (numberOfRetries a)"
    by metis
  have "xcodebuild a \<notin> set (map fst (runs t1))"
    unfolding f(2) using xcodebuild_kind(3) [of a] by (auto simp: is_xcodebuild_def)
  then have a1: "attempts_of (xcodebuild a) (runs t1) = 0"
    by (intro attempts_of_none) simp
  have cnt: "attempts_of (xcodebuild a) (runs (t1 @ pre @ Exec (xcodebuild a) code # t2)) =
      attempts_of (xcodebuild a) (runs pre) + 1"
    by (simp add: a1 f(3))
  show thesis
  proof (rule that [of "t1 @ pre @ Exec (xcodebuild a) code # t2"])
    show "trace (ios_tests w a s) = trace s @ t1 @ pre @ Exec (xcodebuild a) code # t2"
      by (fact f(1))
    show "int (attempts_of (xcodebuild a) (runs (t1 @ pre @ Exec (xcodebuild a) code # t2)))
        \<le> max 1 (numberOfRetries a)"
      unfolding cnt using f(5) by simp
    show "1 \<le> attempts_of (xcodebuild a) (runs (t1 @ pre @ Exec (xcodebuild a) code # t2))"
      unfolding cnt by simp
    show "thrown (ios_tests w a s) \<longrightarrow>
       int (attempts_of (xcodebuild a) (runs (t1 @ pre @ Exec (xcodebuild a) code # t2))) =
         max 1 (numberOfRetries a)"
      unfolding cnt using f(4,6) assms(1) by auto
  qed
qed

text \<open>
  Every stage but the one that runs a command leaves that command alone.
\<close>

lemma xcodebuild_neq [simp]:
  "\<not> is_xcodebuild c \<Longrightarrow> xcodebuild a \<noteq> c" "\<not> is_xcodebuild c \<Longrightarrow> c \<noteq> xcodebuild a"
  using xcodebuild_kind(3) [of a] by auto

lemma stage_avoids:
  assumes "\<not> thrown s"
  shows "c \<noteq> YarnGlobalAddCli \<Longrightarrow> outcome (- {c}) UNIV s (install_cli w a s)"
    and "c \<noteq> GradlewInstallArchives \<Longrightarrow> outcome (- {c}) UNIV s (android_binaries w a s)"
    and "c \<notin> {NpmInstallFlowBin, Sleep10} \<Longrightarrow> outcome (- {c}) UNIV s (install_flow w a s)"
    and "c \<noteq> NpmPack \<Longrightarrow> outcome (- {c}) UNIV s (npm_pack w s)"
    and "c \<notin> {RnInit, Sleep10} \<Longrightarrow> outcome (- {c}) UNIV s (react_native_init w a s)"
    and "c \<notin> {NpmInstallPackage, NpmInstall, Sleep10} \<Longrightarrow>
           outcome (- {c}) UNIV s (npm_install w a s)"
    and "c \<notin> android_cmds \<Longrightarrow> outcome (- {c}) UNIV s (android_tests w a s)"
    and "c \<notin> {Sleep15, CurlWarmup, PodInstall, Sleep10, xcodebuild a} \<Longrightarrow>
           outcome (- {c}) UNIV s (ios_tests w a s)"
    and "c \<notin> {BundleAndroid, BundleIos, FlowCheck} \<Longrightarrow> outcome (- {c}) UNIV s (js_tests w a s)"
    and "outcome (- {c}) UNIV s (succeed s)"
    and "c \<notin> {YarnAddAppium, Sleep10} \<Longrightarrow> outcome (- {c}) UNIV s (android_framework w a s)"
    and "c \<notin> {GradlewCopyDeps, RmKeystore, Keytool} \<Longrightarrow>
           outcome (- {c}) UNIV s (android_keystore w s)"
    and "c \<noteq> RnRunAndroid \<Longrightarrow> outcome (- {c}) UNIV s (android_app w s)"
    and "c \<notin> {Sleep15, Mocha, Sleep10} \<Longrightarrow> outcome (- {c}) UNIV s (android_e2e w a s)"
proof -
  show "c \<noteq> YarnGlobalAddCli \<Longrightarrow> outcome (- {c}) UNIV s (install_cli w a s)"
    by (rule outcome_mono [OF install_cli_outcome [OF assms]]) auto
  show "c \<noteq> GradlewInstallArchives \<Longrightarrow> outcome (- {c}) UNIV s (android_binaries w a s)"
    by (rule outcome_mono [OF android_binaries_outcome [OF assms]]) auto
  show "c \<notin> {NpmInstallFlowBin, Sleep10} \<Longrightarrow> outcome (- {c}) UNIV s (install_flow w a s)"
    by (rule outcome_mono [OF install_flow_outcome [OF assms]]) auto
  show "c \<noteq> NpmPack \<Longrightarrow> outcome (- {c}) UNIV s (npm_pack w s)"
    by (rule outcome_mono [OF npm_pack_outcome [OF assms]]) auto
  show "c \<notin> {RnInit, Sleep10} \<Longrightarrow> outcome (- {c}) UNIV s (react_native_init w a s)"
    by (rule outcome_mono [OF react_native_init_outcome [OF assms]]) auto
  show "c \<notin> {NpmInstallPackage, NpmInstall, Sleep10} \<Longrightarrow>
           outcome (- {c}) UNIV s (npm_install w a s)"
    by (rule outcome_mono [OF npm_install_outcome [OF assms]]) auto
  show "c \<notin> android_cmds \<Longrightarrow> outcome (- {c}) UNIV s (android_tests w a s)"
    by (rule outcome_mono [OF android_tests_outcome [OF assms]]) auto
  show "c \<notin> {Sleep15, CurlWarmup, PodInstall, Sleep10, xcodebuild a} \<Longrightarrow>
           outcome (- {c}) UNIV s (ios_tests w a s)"
    by (rule outcome_mono [OF ios_tests_outcome [OF assms]]) auto
  show "c \<notin> {BundleAndroid, BundleIos, FlowCheck} \<Longrightarrow> outcome (- {c}) UNIV s (js_tests w a s)"
    by (rule outcome_mono [OF js_tests_outcome [OF assms]]) auto
  show "outcome (- {c}) UNIV s (succeed s)"
    by (rule outcome_mono [OF succeed_outcome [OF assms]]) auto
  show "c \<notin> {YarnAddAppium, Sleep10} \<Longrightarrow> outcome (- {c}) UNIV s (android_framework w a s)"
    by (rule outcome_mono [OF android_framework_outcome [OF assms]]) auto
  show "c \<notin> {GradlewCopyDeps, RmKeystore, Keytool} \<Longrightarrow>
           outcome (- {c}) UNIV s (android_keystore w s)"
    by (rule outcome_mono [OF android_keystore_outcome [OF assms]]) auto
  show "c \<noteq> RnRunAndroid \<Longrightarrow> outcome (- {c}) UNIV s (android_app w s)"
    by (rule outcome_mono [OF android_app_outcome [OF assms]]) auto
  show "c \<notin> {Sleep15, Mocha, Sleep10} \<Longrightarrow> outcome (- {c}) UNIV s (android_e2e w a s)"
    by (rule outcome_mono [OF android_e2e_outcome [OF assms]]) auto
qed

lemma android_tests_yarn:
  assumes "android a" "\<not> thrown s" "trace (android_tests w a s) = trace s @ d"
  shows "int (attempts_of YarnAddAppium (runs d)) \<le> max 1 (numberOfRetries a)"
    and "1 \<le> attempts_of YarnAddAppium (runs d)"
    and "thrown (android_tests w a s) \<and> runs d \<noteq> [] \<and> fst (last (runs d)) = YarnAddAppium \<longrightarrow>
           int (attempts_of YarnAddAppium (runs d)) = max 1 (numberOfRetries a)"
proof -
  obtain d1 where d1: "trace (android_framework w a s) = trace s @ d1"
    "int (attempts_of YarnAddAppium (runs d1)) \<le> max 1 (numberOfRetries a)"
    "1 \<le> attempts_of YarnAddAppium (runs d1)"
    "thrown (android_framework w a s) \<longrightarrow>
       int (attempts_of YarnAddAppium (runs d1)) = max 1 (numberOfRetries a)"
    by (rule android_framework_attempts [OF assms(2), of w a])
  have eq: "android_tests w a s =
      run_stages ([] @ android_framework w a # [android_keystore w, android_app w, android_e2e w a]) s"
    using assms(1) by (simp add: android_tests_def)
  have others: "\<forall>g\<in>set [] \<union> set [android_keystore w, android_app w, android_e2e w a].
      \<forall>s'. \<not> thrown s' \<longrightarrow> outcome (- {YarnAddAppium}) UNIV s' (g s')"
    by (auto intro!: stage_avoids)
  have tr: "trace (run_stages ([] @ android_framework w a #
      [android_keystore w, android_app w, android_e2e w a]) s) = trace s @ d"
    using assms(3) unfolding eq .
  have c: "YarnAddAppium \<notin> - {YarnAddAppium}" by simp
  have r0: "run_stages [] s = s" by simp
  have f: "\<not> thrown (run_stages [] s) \<Longrightarrow>
      trace (android_framework w a (run_stages [] s)) = trace (run_stages [] s) @ d1"
    unfolding r0 by (rule d1(1))
  note ss = single_stage [of "[]" "[android_keystore w, android_app w, android_e2e w a]"
      "- {YarnAddAppium}" YarnAddAppium s "android_framework w a" d1 d, OF others c assms(2) f tr]
  have cnt: "attempts_of YarnAddAppium (runs d) = attempts_of YarnAddAppium (runs d1)"
    using ss(1) assms(2) unfolding r0 by simp
  show "int (attempts_of YarnAddAppium (runs d)) \<le> max 1 (numberOfRetries a)"
    unfolding cnt by (fact d1(2))
  show "1 \<le> attempts_of YarnAddAppium (runs d)"
    unfolding cnt by (fact d1(3))
  have "thrown (android_tests w a s) \<and> runs d \<noteq> [] \<and> fst (last (runs d)) = YarnAddAppium \<longrightarrow>
      thrown (android_framework w a s)"
    using ss(2) unfolding eq r0 by blast
  then show "thrown (android_tests w a s) \<and> runs d \<noteq> [] \<and> fst (last (runs d)) = YarnAddAppium \<longrightarrow>
           int (attempts_of YarnAddAppium (runs d)) = max 1 (numberOfRetries a)"
    unfolding cnt using d1(4) by blast
qed

lemma android_tests_mocha:
  assumes "android a" "\<not> thrown s" "trace (android_tests w a s) = trace s @ d"
  shows "int (attempts_of Mocha (runs d)) \<le> max 1 (numberOfRetries a)"
    and "\<not> thrown (run_stages [android_framework w a, android_keystore w, android_app w] s) \<longrightarrow>
           1 \<le> attempts_of Mocha (runs d)"
    and "thrown (android_tests w a s) \<and> runs d \<noteq> [] \<and> fst (last (runs d)) = Mocha \<longrightarrow>
           int (attempts_of Mocha (runs d)) = max 1 (numberOfRetries a)"
proof -
  let ?pre = "[android_framework w a, android_keystore w, android_app w]"
  define s1 where "s1 = run_stages ?pre s"
  obtain d1 where d1: "\<not> thrown s1 \<longrightarrow> trace (android_e2e w a s1) = trace s1 @ d1 \<and>
      int (attempts_of Mocha (runs d1)) \<le> max 1 (numberOfRetries a) \<and>
      1 \<le> attempts_of Mocha (runs d1) \<and>
      (thrown (android_e2e w a s1) \<longrightarrow>
         int (attempts_of Mocha (runs d1)) = max 1 (numberOfRetries a))"
  proof (cases "thrown s1")
    case True
    then show ?thesis using that [of "[]"] by blast
  next
    case False
    from android_e2e_attempts [OF False, of w a] obtain d' where
      "trace (android_e2e w a s1) = trace s1 @ d'"
      "int (attempts_of Mocha (runs d')) \<le> max 1 (numberOfRetries a)"
      "1 \<le> attempts_of Mocha (runs d')"
      "thrown (android_e2e w a s1) \<longrightarrow>
         int (attempts_of Mocha (runs d')) = max 1 (numberOfRetries a)"
      by blast
    then show ?thesis using that [of d'] by blast
  qed
  have eq: "android_tests w a s = run_stages (?pre @ android_e2e w a # []) s"
    using assms(1) by (simp add: android_tests_def)
  have others: "\<forall>g\<in>set ?pre \<union> set []. \<forall>s'. \<not> thrown s' \<longrightarrow> outcome (- {Mocha}) UNIV s' (g s')"
    by (auto intro!: stage_avoids)
  have tr: "trace (run_stages (?pre @ android_e2e w a # []) s) = trace s @ d"
    using assms(3) unfolding eq .
  have f: "\<not> thrown (run_stages ?pre s) \<Longrightarrow>
      trace (android_e2e w a (run_stages ?pre s)) = trace (run_stages ?pre s) @ d1"
    using d1 unfolding s1_def by blast
  have c: "Mocha \<notin> - {Mocha}" by simp
  note ss = single_stage [of ?pre "[]" "- {Mocha}" Mocha s "android_e2e w a" d1 d,
      OF others c assms(2) f tr, folded s1_def]
  have cnt: "attempts_of Mocha (runs d) = (if thrown s1 then 0 else attempts_of Mocha (runs d1))"
    by (rule ss(1))
  have max1: "(0::int) \<le> max 1 (numberOfRetries a)" by simp
  show "int (attempts_of Mocha (runs d)) \<le> max 1 (numberOfRetries a)"
    unfolding cnt using d1 max1 by (cases "thrown s1") simp_all
  show "\<not> thrown (run_stages ?pre s) \<longrightarrow> 1 \<le> attempts_of Mocha (runs d)"
    unfolding cnt s1_def [symmetric] using d1 by simp
  have "thrown (android_tests w a s) \<and> runs d \<noteq> [] \<and> fst (last (runs d)) = Mocha \<longrightarrow>
      \<not> thrown s1 \<and> thrown (android_e2e w a s1)"
    using ss(2) unfolding eq by blast
  then show "thrown (android_tests w a s) \<and> runs d \<noteq> [] \<and> fst (last (runs d)) = Mocha \<longrightarrow>
           int (attempts_of Mocha (runs d)) = max 1 (numberOfRetries a)"
    unfolding cnt using d1 by auto
qed

text \<open>
  The same for a whole run: the attempts of a retried command in the history of the run
  are those of the one stage that runs it, as many as the retry count allows when the run
  ends on a failure of that command.
\<close>

lemma run_retried_gen:
  assumes split: "stages w a = pre @ f # post"
    and others: "\<forall>g\<in>set pre \<union> set post. \<forall>s. \<not> thrown s \<longrightarrow> outcome (- {c}) UNIV s (g s)"
    and c: "c \<noteq> Mktemp" "\<not> cleanup c"
    and fo: "\<forall>s. \<not> thrown s \<longrightarrow> outcome B S s (f s)"
    and f: "\<forall>s d1. \<not> thrown s \<and> trace (f s) = trace s @ d1 \<longrightarrow>
        int (attempts_of c (runs d1)) \<le> M \<and> (R s \<longrightarrow> 1 \<le> attempts_of c (runs d1)) \<and>
        (thrown (f s) \<and> runs d1 \<noteq> [] \<and> fst (last (runs d1)) = c \<longrightarrow>
           int (attempts_of c (runs d1)) = M)"
    and M: "0 \<le> M"
  shows "int (attempts_of c (runs (fst (run w a)))) \<le> M"
    and "\<not> thrown (run_stages pre (before_try w)) \<and> R (run_stages pre (before_try w)) \<longrightarrow>
           1 \<le> attempts_of c (runs (fst (run w a)))"
    and "snd (run w a) = Uncaught \<and> fst (last (work (fst (run w a)))) = c \<longrightarrow>
           int (attempts_of c (runs (fst (run w a)))) = M"
proof -
  let ?s0 = "before_try w"
  define s1 where "s1 = run_stages pre ?s0"
  define s3 where "s3 = run_stages (pre @ f # post) ?s0"
  define k where "k = exec_code w [] Mktemp"
  have s0: "trace ?s0 = [Exec Mktemp k]" "\<not> thrown ?s0"
    by (simp_all add: before_try_def init_def prim_defs Let_def k_def)
  have tb: "try_block w a ?s0 = s3"
    by (simp only: try_block_def split s3_def)
  from try_block_outcome [OF s0(2), of w a] obtain d where d:
    "trace s3 = trace ?s0 @ d" "fst ` set (runs d) \<subseteq> {c. \<not> cleanup c}"
    "fst ` set (spawns d) \<subseteq> UNIV" "thrown s3 \<longleftrightarrow> failed_last (runs d)"
    unfolding tb by (rule outcomeE)
  obtain fin where fin: "trace (finally_block w s3) = trace s3 @ fin"
    "map fst (runs fin) = expected_kills (SERVER_PID s3) (APPIUM_PID s3)"
    "spawns fin = []" "thrown (finally_block w s3) = thrown s3"
    "exitCode (finally_block w s3) = exitCode s3"
    by (rule finally_fields)
  have sc: "script w a = finally_block w s3"
    by (simp only: script_def tb)
  have tr: "fst (run w a) = Exec Mktemp k # d @ fin"
    by (simp add: run_def Let_def sc fin(1) d(1) s0(1))
  have "fst ` set (runs fin) = set (map fst (runs fin))" by simp
  also have "\<dots> \<subseteq> {c. cleanup c}"
    unfolding fin(2) by (auto simp: expected_kills_def cleanup_def)
  finally have "attempts_of c (runs fin) = 0"
    using c(2) by (intro attempts_of_outside [of _ "{c. cleanup c}"]) simp_all
  then have cnt0: "attempts_of c (runs (fst (run w a))) = attempts_of c (runs d)"
    using c(1) by (simp add: tr)
  obtain d1 where d1: "\<not> thrown s1 \<longrightarrow> trace (f s1) = trace s1 @ d1 \<and> (thrown (f s1) \<longrightarrow> runs d1 \<noteq> [])"
  proof (cases "thrown s1")
    case True
    then show ?thesis using that [of "[]"] by blast
  next
    case False
    with fo have "outcome B S s1 (f s1)" by blast
    then obtain d' where "trace (f s1) = trace s1 @ d'" "thrown (f s1) \<longleftrightarrow> failed_last (runs d')"
      by (rule outcomeE)
    then have "trace (f s1) = trace s1 @ d' \<and> (thrown (f s1) \<longrightarrow> runs d' \<noteq> [])"
      by (auto simp: failed_last_def)
    then show ?thesis using that [of d'] by blast
  qed
  have f1: "\<not> thrown (run_stages pre ?s0) \<Longrightarrow>
      trace (f (run_stages pre ?s0)) = trace (run_stages pre ?s0) @ d1"
    using d1 unfolding s1_def by blast
  have c': "c \<notin> - {c}" by simp
  note ss = single_stage [of pre post "- {c}" c ?s0 f d1 d, OF others c' s0(2) f1
      d(1) [unfolded s3_def], folded s1_def s3_def]
  have cnt: "attempts_of c (runs (fst (run w a))) =
      (if thrown s1 then 0 else attempts_of c (runs d1))"
    unfolding cnt0 by (rule ss(1))
  have fs: "int (attempts_of c (runs d1)) \<le> M \<and> (R s1 \<longrightarrow> 1 \<le> attempts_of c (runs d1)) \<and>
        (thrown (f s1) \<and> runs d1 \<noteq> [] \<and> fst (last (runs d1)) = c \<longrightarrow>
           int (attempts_of c (runs d1)) = M)" if "\<not> thrown s1"
    using f d1 that by blast
  show "int (attempts_of c (runs (fst (run w a)))) \<le> M"
    unfolding cnt using fs M by (cases "thrown s1") simp_all
  show "\<not> thrown (run_stages pre ?s0) \<and> R (run_stages pre ?s0) \<longrightarrow>
           1 \<le> attempts_of c (runs (fst (run w a)))"
    unfolding cnt s1_def [symmetric] using fs by simp
  have w: "work (fst (run w a)) = (Mktemp, k) # runs d"
    using work_all [OF d(2)] work_fin(1) [OF fin(2)]
    by (simp add: tr work_def cleanup_def)
  have un: "snd (run w a) = Uncaught \<longleftrightarrow> thrown s3"
    using fin(4) by (simp add: run_def Let_def sc finish_def split: if_splits option.splits)
  show "snd (run w a) = Uncaught \<and> fst (last (work (fst (run w a)))) = c \<longrightarrow>
           int (attempts_of c (runs (fst (run w a)))) = M"
  proof
    assume h: "snd (run w a) = Uncaught \<and> fst (last (work (fst (run w a)))) = c"
    then have th: "thrown s3" using un by simp
    have ne: "runs d \<noteq> []" using h c(1) by (auto simp: w split: if_splits)
    then have "fst (last (runs d)) = c" using h by (simp add: w)
    with ss(2) th ne have 1: "\<not> thrown s1" "thrown (f s1)"
      "runs d1 \<noteq> [] \<longrightarrow> last (runs d1) = last (runs d)"
      by blast+
    from d1 1 have "runs d1 \<noteq> []" by blast
    with 1(3) \<open>fst (last (runs d)) = c\<close> have "fst (last (runs d1)) = c" by simp
    with fs [OF 1(1)] 1(2) \<open>runs d1 \<noteq> []\<close> have "int (attempts_of c (runs d1)) = M" by blast
    then show "int (attempts_of c (runs (fst (run w a)))) = M"
      unfolding cnt using 1(1) by simp
  qed
qed

lemma run_attempts_flow:
  shows "int (attempts_of (NpmInstallFlowBin) (runs (fst (run w a)))) \<le> max 1 (numberOfRetries a)"
    and "js a \<and> \<not> thrown (reached w a 2) \<longrightarrow> 1 \<le> attempts_of (NpmInstallFlowBin) (runs (fst (run w a)))"
    and "snd (run w a) = Uncaught \<and> fst (last (work (fst (run w a)))) = NpmInstallFlowBin \<longrightarrow>
           int (attempts_of (NpmInstallFlowBin) (runs (fst (run w a)))) = max 1 (numberOfRetries a)"
proof -
  have split: "stages w a = [install_cli w a, android_binaries w a] @ install_flow w a # [npm_pack w, react_native_init w a, npm_install w a, android_tests w a, ios_tests w a, js_tests w a, succeed]"
    by (simp add: stages_def)
  have others: "\<forall>g\<in>set [install_cli w a, android_binaries w a] \<union> set [npm_pack w, react_native_init w a, npm_install w a, android_tests w a, ios_tests w a, js_tests w a, succeed].
      \<forall>s. \<not> thrown s \<longrightarrow> outcome (- {NpmInstallFlowBin}) UNIV s (g s)"
    by (auto intro!: stage_avoids simp: android_cmds_def is_xcodebuild_def)
  have c: "NpmInstallFlowBin \<noteq> Mktemp" "\<not> cleanup (NpmInstallFlowBin)"
    by (simp_all add: cleanup_def is_xcodebuild_def)
  have fo: "\<forall>s. \<not> thrown s \<longrightarrow> outcome ({NpmInstallFlowBin, Sleep10}) ({}) s (install_flow w a s)"
    using install_flow_outcome by blast
  have f: "\<forall>s d1. \<not> thrown s \<and> trace (install_flow w a s) = trace s @ d1 \<longrightarrow>
        int (attempts_of (NpmInstallFlowBin) (runs d1)) \<le> max 1 (numberOfRetries a) \<and>
        (js a \<longrightarrow> 1 \<le> attempts_of (NpmInstallFlowBin) (runs d1)) \<and>
        (thrown (install_flow w a s) \<and> runs d1 \<noteq> [] \<and> fst (last (runs d1)) = NpmInstallFlowBin \<longrightarrow>
           int (attempts_of (NpmInstallFlowBin) (runs d1)) = max 1 (numberOfRetries a))"
  proof (intro allI impI, elim conjE)
    fix s d1
    assume nt: "\<not> thrown s" and tr: "trace (install_flow w a s) = trace s @ d1"
    show "int (attempts_of (NpmInstallFlowBin) (runs d1)) \<le> max 1 (numberOfRetries a) \<and>
        (js a \<longrightarrow> 1 \<le> attempts_of (NpmInstallFlowBin) (runs d1)) \<and>
        (thrown (install_flow w a s) \<and> runs d1 \<noteq> [] \<and> fst (last (runs d1)) = NpmInstallFlowBin \<longrightarrow>
           int (attempts_of (NpmInstallFlowBin) (runs d1)) = max 1 (numberOfRetries a))"
    proof (cases "js a")
      case True
      from install_flow_attempts [OF nt True, of w] obtain d where d: "trace (install_flow w a s) = trace s @ d"
        "int (attempts_of NpmInstallFlowBin (runs d)) \<le> max 1 (numberOfRetries a)"
        "1 \<le> attempts_of NpmInstallFlowBin (runs d)"
        "thrown (install_flow w a s) \<longrightarrow> int (attempts_of NpmInstallFlowBin (runs d)) = max 1 (numberOfRetries a)"
        by blast
      from d(1) tr have "d1 = d" by simp
      with d(2,3,4) show ?thesis by blast
    next
      case False
      then have e: "install_flow w a s = s" by (simp add: install_flow_def)
      with tr have "d1 = []" by simp
      with False nt e show ?thesis by simp
    qed
  qed
  have M: "(0::int) \<le> max 1 (numberOfRetries a)" by simp
  have r: "run_stages [install_cli w a, android_binaries w a] (before_try w) = reached w a 2"
    by (simp add: reached_def stages_def)
  note g = run_retried_gen [where w = w and a = a and pre = "[install_cli w a, android_binaries w a]" and f = "install_flow w a"
      and post = "[npm_pack w, react_native_init w a, npm_install w a, android_tests w a, ios_tests w a, js_tests w a, succeed]" and c = "NpmInstallFlowBin" and M = "max 1 (numberOfRetries a)" and R = "\<lambda>s. js a",
      OF split others c fo f M]
  show "int (attempts_of (NpmInstallFlowBin) (runs (fst (run w a)))) \<le> max 1 (numberOfRetries a)" by (rule g(1))
  show "js a \<and> \<not> thrown (reached w a 2) \<longrightarrow> 1 \<le> attempts_of (NpmInstallFlowBin) (runs (fst (run w a)))"
    using g(2) unfolding r by blast
  show "snd (run w a) = Uncaught \<and> fst (last (work (fst (run w a)))) = NpmInstallFlowBin \<longrightarrow>
           int (attempts_of (NpmInstallFlowBin) (runs (fst (run w a)))) = max 1 (numberOfRetries a)" by (rule g(3))
qed

lemma run_attempts_init:
  shows "int (attempts_of (RnInit) (runs (fst (run w a)))) \<le> max 1 (numberOfRetries a)"
    and "\<not> thrown (reached w a 4) \<longrightarrow> 1 \<le> attempts_of (RnInit) (runs (fst (run w a)))"
    and "snd (run w a) = Uncaught \<and> fst (last (work (fst (run w a)))) = RnInit \<longrightarrow>
           int (attempts_of (RnInit) (runs (fst (run w a)))) = max 1 (numberOfRetries a)"
proof -
  have split: "stages w a = [install_cli w a, android_binaries w a, install_flow w a, npm_pack w] @ react_native_init w a # [npm_install w a, android_tests w a, ios_tests w a, js_tests w a, succeed]"
    by (simp add: stages_def)
  have others: "\<forall>g\<in>set [install_cli w a, android_binaries w a, install_flow w a, npm_pack w] \<union> set [npm_install w a, android_tests w a, ios_tests w a, js_tests w a, succeed].
      \<forall>s. \<not> thrown s \<longrightarrow> outcome (- {RnInit}) UNIV s (g s)"
    by (auto intro!: stage_avoids simp: android_cmds_def is_xcodebuild_def)
  have c: "RnInit \<noteq> Mktemp" "\<not> cleanup (RnInit)"
    by (simp_all add: cleanup_def is_xcodebuild_def)
  have fo: "\<forall>s. \<not> thrown s \<longrightarrow> outcome ({RnInit, Sleep10}) ({}) s (react_native_init w a s)"
    using react_native_init_outcome by blast
  have f: "\<forall>s d1. \<not> thrown s \<and> trace (react_native_init w a s) = trace s @ d1 \<longrightarrow>
        int (attempts_of (RnInit) (runs d1)) \<le> max 1 (numberOfRetries a) \<and>
        (True \<longrightarrow> 1 \<le> attempts_of (RnInit) (runs d1)) \<and>
        (thrown (react_native_init w a s) \<and> runs d1 \<noteq> [] \<and> fst (last (runs d1)) = RnInit \<longrightarrow>
           int (attempts_of (RnInit) (runs d1)) = max 1 (numberOfRetries a))"
  proof (intro allI impI, elim conjE)
    fix s d1
    assume nt: "\<not> thrown s" and tr: "trace (react_native_init w a s) = trace s @ d1"
    show "int (attempts_of (RnInit) (runs d1)) \<le> max 1 (numberOfRetries a) \<and>
        (True \<longrightarrow> 1 \<le> attempts_of (RnInit) (runs d1)) \<and>
        (thrown (react_native_init w a s) \<and> runs d1 \<noteq> [] \<and> fst (last (runs d1)) = RnInit \<longrightarrow>
           int (attempts_of (RnInit) (runs d1)) = max 1 (numberOfRetries a))"
    proof -
      from react_native_init_attempts [OF nt, of w a] obtain d where d: "trace (react_native_init w a s) = trace s @ d"
        "int (attempts_of RnInit (runs d)) \<le> max 1 (numberOfRetries a)"
        "1 \<le> attempts_of RnInit (runs d)"
        "thrown (react_native_init w a s) \<longrightarrow> int (attempts_of RnInit (runs d)) = max 1 (numberOfRetries a)"
        by blast
      from d(1) tr have "d1 = d" by simp
      with d(2,3,4) show ?thesis by blast
    qed
  qed
  have M: "(0::int) \<le> max 1 (numberOfRetries a)" by simp
  have r: "run_stages [install_cli w a, android_binaries w a, install_flow w a, npm_pack w] (before_try w) = reached w a 4"
    by (simp add: reached_def stages_def)
  note g = run_retried_gen [where w = w and a = a and pre = "[install_cli w a, android_binaries w a, install_flow w a, npm_pack w]" and f = "react_native_init w a"
      and post = "[npm_install w a, android_tests w a, ios_tests w a, js_tests w a, succeed]" and c = "RnInit" and M = "max 1 (numberOfRetries a)" and R = "\<lambda>s. True",
      OF split others c fo f M]
  show "int (attempts_of (RnInit) (runs (fst (run w a)))) \<le> max 1 (numberOfRetries a)" by (rule g(1))
  show "\<not> thrown (reached w a 4) \<longrightarrow> 1 \<le> attempts_of (RnInit) (runs (fst (run w a)))"
    using g(2) unfolding r by blast
  show "snd (run w a) = Uncaught \<and> fst (last (work (fst (run w a)))) = RnInit \<longrightarrow>
           int (attempts_of (RnInit) (runs (fst (run w a)))) = max 1 (numberOfRetries a)" by (rule g(3))
qed

lemma run_attempts_install:
  shows "int (attempts_of (NpmInstall) (runs (fst (run w a)))) \<le> max 1 (numberOfRetries a)"
    and "\<not> thrown (reached w a 5) \<longrightarrow> 1 \<le> attempts_of (NpmInstall) (runs (fst (run w a)))"
    and "snd (run w a) = Uncaught \<and> fst (last (work (fst (run w a)))) = NpmInstall \<longrightarrow>
           int (attempts_of (NpmInstall) (runs (fst (run w a)))) = max 1 (numberOfRetries a)"
proof -
  have split: "stages w a = [install_cli w a, android_binaries w a, install_flow w a, npm_pack w, react_native_init w a] @ npm_install w a # [android_tests w a, ios_tests w a, js_tests w a, succeed]"
    by (simp add: stages_def)
  have others: "\<forall>g\<in>set [install_cli w a, android_binaries w a, install_flow w a, npm_pack w, react_native_init w a] \<union> set [android_tests w a, ios_tests w a, js_tests w a, succeed].
      \<forall>s. \<not> thrown s \<longrightarrow> outcome (- {NpmInstall}) UNIV s (g s)"
    by (auto intro!: stage_avoids simp: android_cmds_def is_xcodebuild_def)
  have c: "NpmInstall \<noteq> Mktemp" "\<not> cleanup (NpmInstall)"
    by (simp_all add: cleanup_def is_xcodebuild_def)
  have fo: "\<forall>s. \<not> thrown s \<longrightarrow> outcome ({NpmInstallPackage, NpmInstall, Sleep10}) ({}) s (npm_install w a s)"
    using npm_install_outcome by blast
  have f: "\<forall>s d1. \<not> thrown s \<and> trace (npm_install w a s) = trace s @ d1 \<longrightarrow>
        int (attempts_of (NpmInstall) (runs d1)) \<le> max 1 (numberOfRetries a) \<and>
        (True \<longrightarrow> 1 \<le> attempts_of (NpmInstall) (runs d1)) \<and>
        (thrown (npm_install w a s) \<and> runs d1 \<noteq> [] \<and> fst (last (runs d1)) = NpmInstall \<longrightarrow>
           int (attempts_of (NpmInstall) (runs d1)) = max 1 (numberOfRetries a))"
  proof (intro allI impI, elim conjE)
    fix s d1
    assume nt: "\<not> thrown s" and tr: "trace (npm_install w a s) = trace s @ d1"
    show "int (attempts_of (NpmInstall) (runs d1)) \<le> max 1 (numberOfRetries a) \<and>
        (True \<longrightarrow> 1 \<le> attempts_of (NpmInstall) (runs d1)) \<and>
        (thrown (npm_install w a s) \<and> runs d1 \<noteq> [] \<and> fst (last (runs d1)) = NpmInstall \<longrightarrow>
           int (attempts_of (NpmInstall) (runs d1)) = max 1 (numberOfRetries a))"
    proof -
      from npm_install_attempts [OF nt, of w a] obtain d where d: "trace (npm_install w a s) = trace s @ d"
        "int (attempts_of NpmInstall (runs d)) \<le> max 1 (numberOfRetries a)"
        "1 \<le> attempts_of NpmInstall (runs d)"
        "thrown (npm_install w a s) \<longrightarrow> int (attempts_of NpmInstall (runs d)) = max 1 (numberOfRetries a)"
        by blast
      from d(1) tr have "d1 = d" by simp
      with d(2,3,4) show ?thesis by blast
    qed
  qed
  have M: "(0::int) \<le> max 1 (numberOfRetries a)" by simp
  have r: "run_stages [install_cli w a, android_binaries w a, install_flow w a, npm_pack w, react_native_init w a] (before_try w) = reached w a 5"
    by (simp add: reached_def stages_def)
  note g = run_retried_gen [where w = w and a = a and pre = "[install_cli w a, android_binaries w a, install_flow w a, npm_pack w, react_native_init w a]" and f = "npm_install w a"
      and post = "[android_tests w a, ios_tests w a, js_tests w a, succeed]" and c = "NpmInstall" and M = "max 1 (numberOfRetries a)" and R = "\<lambda>s. True",
      OF split others c fo f M]
  show "int (attempts_of (NpmInstall) (runs (fst (run w a)))) \<le> max 1 (numberOfRetries a)" by (rule g(1))
  show "\<not> thrown (reached w a 5) \<longrightarrow> 1 \<le> attempts_of (NpmInstall) (runs (fst (run w a)))"
    using g(2) unfolding r by blast
  show "snd (run w a) = Uncaught \<and> fst (last (work (fst (run w a)))) = NpmInstall \<longrightarrow>
           int (attempts_of (NpmInstall) (runs (fst (run w a)))) = max 1 (numberOfRetries a)" by (rule g(3))
qed

lemma run_attempts_appium:
  shows "int (attempts_of (YarnAddAppium) (runs (fst (run w a)))) \<le> max 1 (numberOfRetries a)"
    and "android a \<and> \<not> thrown (reached w a 6) \<longrightarrow> 1 \<le> attempts_of (YarnAddAppium) (runs (fst (run w a)))"
    and "snd (run w a) = Uncaught \<and> fst (last (work (fst (run w a)))) = YarnAddAppium \<longrightarrow>
           int (attempts_of (YarnAddAppium) (runs (fst (run w a)))) = max 1 (numberOfRetries a)"
proof -
  have split: "stages w a = [install_cli w a, android_binaries w a, install_flow w a, npm_pack w, react_native_init w a, npm_install w a] @ android_tests w a # [ios_tests w a, js_tests w a, succeed]"
    by (simp add: stages_def)
  have others: "\<forall>g\<in>set [install_cli w a, android_binaries w a, install_flow w a, npm_pack w, react_native_init w a, npm_install w a] \<union> set [ios_tests w a, js_tests w a, succeed].
      \<forall>s. \<not> thrown s \<longrightarrow> outcome (- {YarnAddAppium}) UNIV s (g s)"
    by (auto intro!: stage_avoids simp: android_cmds_def is_xcodebuild_def)
  have c: "YarnAddAppium \<noteq> Mktemp" "\<not> cleanup (YarnAddAppium)"
    by (simp_all add: cleanup_def is_xcodebuild_def)
  have fo: "\<forall>s. \<not> thrown s \<longrightarrow> outcome (android_cmds) ({Appium, PackagerAndroid}) s (android_tests w a s)"
    using android_tests_outcome by blast
  have f: "\<forall>s d1. \<not> thrown s \<and> trace (android_tests w a s) = trace s @ d1 \<longrightarrow>
        int (attempts_of (YarnAddAppium) (runs d1)) \<le> max 1 (numberOfRetries a) \<and>
        (android a \<longrightarrow> 1 \<le> attempts_of (YarnAddAppium) (runs d1)) \<and>
        (thrown (android_tests w a s) \<and> runs d1 \<noteq> [] \<and> fst (last (runs d1)) = YarnAddAppium \<longrightarrow>
           int (attempts_of (YarnAddAppium) (runs d1)) = max 1 (numberOfRetries a))"
  proof (intro allI impI, elim conjE)
    fix s d1
    assume nt: "\<not> thrown s" and tr: "trace (android_tests w a s) = trace s @ d1"
    show "int (attempts_of (YarnAddAppium) (runs d1)) \<le> max 1 (numberOfRetries a) \<and>
        (android a \<longrightarrow> 1 \<le> attempts_of (YarnAddAppium) (runs d1)) \<and>
        (thrown (android_tests w a s) \<and> runs d1 \<noteq> [] \<and> fst (last (runs d1)) = YarnAddAppium \<longrightarrow>
           int (attempts_of (YarnAddAppium) (runs d1)) = max 1 (numberOfRetries a))"
    proof (cases "android a")
      case True
      note t = android_tests_yarn [OF True nt tr]
      from t show ?thesis by blast
    next
      case False
      then have e: "android_tests w a s = s" by (simp add: android_tests_def)
      with tr have "d1 = []" by simp
      with False nt e show ?thesis by simp
    qed
  qed
  have M: "(0::int) \<le> max 1 (numberOfRetries a)" by simp
  have r: "run_stages [install_cli w a, android_binaries w a, install_flow w a, npm_pack w, react_native_init w a, npm_install w a] (before_try w) = reached w a 6"
    by (simp add: reached_def stages_def)
  note g = run_retried_gen [where w = w and a = a and pre = "[install_cli w a, android_binaries w a, install_flow w a, npm_pack w, react_native_init w a, npm_install w a]" and f = "android_tests w a"
      and post = "[ios_tests w a, js_tests w a, succeed]" and c = "YarnAddAppium" and M = "max 1 (numberOfRetries a)" and R = "\<lambda>s. android a",
      OF split others c fo f M]
  show "int (attempts_of (YarnAddAppium) (runs (fst (run w a)))) \<le> max 1 (numberOfRetries a)" by (rule g(1))
  show "android a \<and> \<not> thrown (reached w a 6) \<longrightarrow> 1 \<le> attempts_of (YarnAddAppium) (runs (fst (run w a)))"
    using g(2) unfolding r by blast
  show "snd (run w a) = Uncaught \<and> fst (last (work (fst (run w a)))) = YarnAddAppium \<longrightarrow>
           int (attempts_of (YarnAddAppium) (runs (fst (run w a)))) = max 1 (numberOfRetries a)" by (rule g(3))
qed

lemma run_attempts_mocha:
  shows "int (attempts_of (Mocha) (runs (fst (run w a)))) \<le> max 1 (numberOfRetries a)"
    and "android a \<and> \<not> thrown (reached_e2e w a) \<longrightarrow> 1 \<le> attempts_of (Mocha) (runs (fst (run w a)))"
    and "snd (run w a) = Uncaught \<and> fst (last (work (fst (run w a)))) = Mocha \<longrightarrow>
           int (attempts_of (Mocha) (runs (fst (run w a)))) = max 1 (numberOfRetries a)"
proof -
  have split: "stages w a = [install_cli w a, android_binaries w a, install_flow w a, npm_pack w, react_native_init w a, npm_install w a] @ android_tests w a # [ios_tests w a, js_tests w a, succeed]"
    by (simp add: stages_def)
  have others: "\<forall>g\<in>set [install_cli w a, android_binaries w a, install_flow w a, npm_pack w, react_native_init w a, npm_install w a] \<union> set [ios_tests w a, js_tests w a, succeed].
      \<forall>s. \<not> thrown s \<longrightarrow> outcome (- {Mocha}) UNIV s (g s)"
    by (auto intro!: stage_avoids simp: android_cmds_def is_xcodebuild_def)
  have c: "Mocha \<noteq> Mktemp" "\<not> cleanup (Mocha)"
    by (simp_all add: cleanup_def is_xcodebuild_def)
  have fo: "\<forall>s. \<not> thrown s \<longrightarrow> outcome (android_cmds) ({Appium, PackagerAndroid}) s (android_tests w a s)"
    using android_tests_outcome by blast
  have f: "\<forall>s d1. \<not> thrown s \<and> trace (android_tests w a s) = trace s @ d1 \<longrightarrow>
        int (attempts_of (Mocha) (runs d1)) \<le> max 1 (numberOfRetries a) \<and>
        (android a \<and> \<not> thrown (run_stages [android_framework w a, android_keystore w, android_app w] s) \<longrightarrow> 1 \<le> attempts_of (Mocha) (runs d1)) \<and>
        (thrown (android_tests w a s) \<and> runs d1 \<noteq> [] \<and> fst (last (runs d1)) = Mocha \<longrightarrow>
           int (attempts_of (Mocha) (runs d1)) = max 1 (numberOfRetries a))"
  proof (intro allI impI, elim conjE)
    fix s d1
    assume nt: "\<not> thrown s" and tr: "trace (android_tests w a s) = trace s @ d1"
    show "int (attempts_of (Mocha) (runs d1)) \<le> max 1 (numberOfRetries a) \<and>
        (android a \<and> \<not> thrown (run_stages [android_framework w a, android_keystore w, android_app w] s) \<longrightarrow> 1 \<le> attempts_of (Mocha) (runs d1)) \<and>
        (thrown (android_tests w a s) \<and> runs d1 \<noteq> [] \<and> fst (last (runs d1)) = Mocha \<longrightarrow>
           int (attempts_of (Mocha) (runs d1)) = max 1 (numberOfRetries a))"
    proof (cases "android a")
      case True
      note t = android_tests_mocha [OF True nt tr]
      from t show ?thesis by blast
    next
      case False
      then have e: "android_tests w a s = s" by (simp add: android_tests_def)
      with tr have "d1 = []" by simp
      with False nt e show ?thesis by simp
    qed
  qed
  have M: "(0::int) \<le> max 1 (numberOfRetries a)" by simp
  have r: "run_stages [install_cli w a, android_binaries w a, install_flow w a, npm_pack w, react_native_init w a, npm_install w a] (before_try w) = reached w a 6"
    by (simp add: reached_def stages_def)
  have e2e: "\<not> thrown (reached w a 6)" if "\<not> thrown (reached_e2e w a)"
  proof
    assume "thrown (reached w a 6)"
    then have "reached_e2e w a = reached w a 6"
      unfolding reached_e2e_def by (rule run_stages_thrown)
    with that \<open>thrown (reached w a 6)\<close> show False by simp
  qed
  note g = run_retried_gen [where w = w and a = a and pre = "[install_cli w a, android_binaries w a, install_flow w a, npm_pack w, react_native_init w a, npm_install w a]" and f = "android_tests w a"
      and post = "[ios_tests w a, js_tests w a, succeed]" and c = "Mocha" and M = "max 1 (numberOfRetries a)" and R = "\<lambda>s. android a \<and> \<not> thrown (run_stages [android_framework w a, android_keystore w, android_app w] s)",
      OF split others c fo f M]
  show "int (attempts_of (Mocha) (runs (fst (run w a)))) \<le> max 1 (numberOfRetries a)" by (rule g(1))
  show "android a \<and> \<not> thrown (reached_e2e w a) \<longrightarrow> 1 \<le> attempts_of (Mocha) (runs (fst (run w a)))"
    using g(2) e2e unfolding r reached_e2e_def by blast
  show "snd (run w a) = Uncaught \<and> fst (last (work (fst (run w a)))) = Mocha \<longrightarrow>
           int (attempts_of (Mocha) (runs (fst (run w a)))) = max 1 (numberOfRetries a)" by (rule g(3))
qed

lemma run_attempts_xcodebuild:
  shows "int (attempts_of (xcodebuild a) (runs (fst (run w a)))) \<le> max 1 (numberOfRetries a)"
    and "(ios a \<or> tvos a) \<and> \<not> thrown (reached w a 7) \<longrightarrow> 1 \<le> attempts_of (xcodebuild a) (runs (fst (run w a)))"
    and "snd (run w a) = Uncaught \<and> fst (last (work (fst (run w a)))) = xcodebuild a \<longrightarrow>
           int (attempts_of (xcodebuild a) (runs (fst (run w a)))) = max 1 (numberOfRetries a)"
proof -
  have split: "stages w a = [install_cli w a, android_binaries w a, install_flow w a, npm_pack w, react_native_init w a, npm_install w a, android_tests w a] @ ios_tests w a # [js_tests w a, succeed]"
    by (simp add: stages_def)
  have others: "\<forall>g\<in>set [install_cli w a, android_binaries w a, install_flow w a, npm_pack w, react_native_init w a, npm_install w a, android_tests w a] \<union> set [js_tests w a, succeed].
      \<forall>s. \<not> thrown s \<longrightarrow> outcome (- {xcodebuild a}) UNIV s (g s)"
    by (auto intro!: stage_avoids simp: android_cmds_def is_xcodebuild_def)
  have c: "xcodebuild a \<noteq> Mktemp" "\<not> cleanup (xcodebuild a)"
    by (simp_all add: is_xcodebuild_def)
  have fo: "\<forall>s. \<not> thrown s \<longrightarrow> outcome ({Sleep15, CurlWarmup, PodInstall, Sleep10, xcodebuild a}) ({PackagerIos}) s (ios_tests w a s)"
    using ios_tests_outcome by blast
  have f: "\<forall>s d1. \<not> thrown s \<and> trace (ios_tests w a s) = trace s @ d1 \<longrightarrow>
        int (attempts_of (xcodebuild a) (runs d1)) \<le> max 1 (numberOfRetries a) \<and>
        (ios a \<or> tvos a \<longrightarrow> 1 \<le> attempts_of (xcodebuild a) (runs d1)) \<and>
        (thrown (ios_tests w a s) \<and> runs d1 \<noteq> [] \<and> fst (last (runs d1)) = xcodebuild a \<longrightarrow>
           int (attempts_of (xcodebuild a) (runs d1)) = max 1 (numberOfRetries a))"
  proof (intro allI impI, elim conjE)
    fix s d1
    assume nt: "\<not> thrown s" and tr: "trace (ios_tests w a s) = trace s @ d1"
    show "int (attempts_of (xcodebuild a) (runs d1)) \<le> max 1 (numberOfRetries a) \<and>
        (ios a \<or> tvos a \<longrightarrow> 1 \<le> attempts_of (xcodebuild a) (runs d1)) \<and>
        (thrown (ios_tests w a s) \<and> runs d1 \<noteq> [] \<and> fst (last (runs d1)) = xcodebuild a \<longrightarrow>
           int (attempts_of (xcodebuild a) (runs d1)) = max 1 (numberOfRetries a))"
    proof (cases "ios a \<or> tvos a")
      case True
      from ios_tests_attempts [OF nt True, of w] obtain d where d: "trace (ios_tests w a s) = trace s @ d"
        "int (attempts_of (xcodebuild a) (runs d)) \<le> max 1 (numberOfRetries a)"
        "1 \<le> attempts_of (xcodebuild a) (runs d)"
        "thrown (ios_tests w a s) \<longrightarrow> int (attempts_of (xcodebuild a) (runs d)) = max 1 (numberOfRetries a)"
        by blast
      from d(1) tr have "d1 = d" by simp
      with d(2,3,4) show ?thesis by blast
    next
      case False
      then have e: "ios_tests w a s = s" by (simp add: ios_tests_def)
      with tr have "d1 = []" by simp
      with False nt e show ?thesis by simp
    qed
  qed
  have M: "(0::int) \<le> max 1 (numberOfRetries a)" by simp
  have r: "run_stages [install_cli w a, android_binaries w a, install_flow w a, npm_pack w, react_native_init w a, npm_install w a, android_tests w a] (before_try w) = reached w a 7"
    by (simp add: reached_def stages_def)
  note g = run_retried_gen [where w = w and a = a and pre = "[install_cli w a, android_binaries w a, install_flow w a, npm_pack w, react_native_init w a, npm_install w a, android_tests w a]" and f = "ios_tests w a"
      and post = "[js_tests w a, succeed]" and c = "xcodebuild a" and M = "max 1 (numberOfRetries a)" and R = "\<lambda>s. ios a \<or> tvos a",
      OF split others c fo f M]
  show "int (attempts_of (xcodebuild a) (runs (fst (run w a)))) \<le> max 1 (numberOfRetries a)" by (rule g(1))
  show "(ios a \<or> tvos a) \<and> \<not> thrown (reached w a 7) \<longrightarrow> 1 \<le> attempts_of (xcodebuild a) (runs (fst (run w a)))"
    using g(2) unfolding r by blast
  show "snd (run w a) = Uncaught \<and> fst (last (work (fst (run w a)))) = xcodebuild a \<longrightarrow>
           int (attempts_of (xcodebuild a) (runs (fst (run w a)))) = max 1 (numberOfRetries a)" by (rule g(3))
qed




subsection \<open>The retry count\<close>

text \<open>
  Claim C9. When \<^verbatim>\<open>--retries\<close> is absent or \<open>0\<close>, the retry count is \<open>1\<close>, not \<open>0\<close>, and in
  every world every retried operation the run gets to is attempted, exactly once, in the
  whole history of the run: \<^verbatim>\<open>npm install --save-dev flow-bin\<close> when the js target is
  selected and the two stages before it did not fail; \<^verbatim>\<open>react-native init\<close> and
  \<^verbatim>\<open>npm install\<close> when the stages before them did not fail; the installation of the
  end-to-end framework when the android target is selected and the stages before the
  branch did not fail; the end-to-end test when the android branch gets to it;
  \<^verbatim>\<open>xcodebuild\<close> when the ios or the tvos target is selected and the stages before the
  branch did not fail. A failed attempt is not repeated.
\<close>

theorem falsy_retries_is_one_attempt:
  assumes "retries a = None \<or> retries a = Some 0"
  shows "numberOfRetries a = 1 \<and>
    (js a \<and> \<not> thrown (reached w a 2) \<longrightarrow>
       attempts_of NpmInstallFlowBin (runs (fst (run w a))) = 1) \<and>
    (\<not> thrown (reached w a 4) \<longrightarrow> attempts_of RnInit (runs (fst (run w a))) = 1) \<and>
    (\<not> thrown (reached w a 5) \<longrightarrow> attempts_of NpmInstall (runs (fst (run w a))) = 1) \<and>
    (android a \<and> \<not> thrown (reached w a 6) \<longrightarrow>
       attempts_of YarnAddAppium (runs (fst (run w a))) = 1) \<and>
    (android a \<and> \<not> thrown (reached_e2e w a) \<longrightarrow>
       attempts_of Mocha (runs (fst (run w a))) = 1) \<and>
    ((ios a \<or> tvos a) \<and> \<not> thrown (reached w a 7) \<longrightarrow>
       attempts_of (xcodebuild a) (runs (fst (run w a))) = 1)"
proof -
  have n: "numberOfRetries a = 1"
    using assms by (auto simp: numberOfRetries_def)
  have one: "x = 1" if "int x \<le> max 1 (numberOfRetries a)" "1 \<le> x" for x :: nat
    using that unfolding n by simp
  have 1: "js a \<and> \<not> thrown (reached w a 2) \<longrightarrow>
       attempts_of NpmInstallFlowBin (runs (fst (run w a))) = 1"
    using one [OF run_attempts_flow(1) [of w a]] run_attempts_flow(2) [of a w] by blast
  have 2: "\<not> thrown (reached w a 4) \<longrightarrow> attempts_of RnInit (runs (fst (run w a))) = 1"
    using one [OF run_attempts_init(1) [of w a]] run_attempts_init(2) [of w a] by blast
  have 3: "\<not> thrown (reached w a 5) \<longrightarrow> attempts_of NpmInstall (runs (fst (run w a))) = 1"
    using one [OF run_attempts_install(1) [of w a]] run_attempts_install(2) [of w a] by blast
  have 4: "android a \<and> \<not> thrown (reached w a 6) \<longrightarrow>
       attempts_of YarnAddAppium (runs (fst (run w a))) = 1"
    using one [OF run_attempts_appium(1) [of w a]] run_attempts_appium(2) [of a w] by blast
  have 5: "android a \<and> \<not> thrown (reached_e2e w a) \<longrightarrow>
       attempts_of Mocha (runs (fst (run w a))) = 1"
    using one [OF run_attempts_mocha(1) [of w a]] run_attempts_mocha(2) [of a w] by blast
  have 6: "(ios a \<or> tvos a) \<and> \<not> thrown (reached w a 7) \<longrightarrow>
       attempts_of (xcodebuild a) (runs (fst (run w a))) = 1"
    using one [OF run_attempts_xcodebuild(1) [of a w]] run_attempts_xcodebuild(2) [of a w]
    by blast
  show ?thesis
    by (rule conjI [OF n conjI [OF 1 conjI [OF 2 conjI [OF 3 conjI [OF 4 conjI [OF 5 6]]]]]])
qed

theorem falsy_retries_is_one_attempt_witness:
  "(retries zero_retries = None \<or> retries zero_retries = Some 0) \<and>
   numberOfRetries zero_retries = 1 \<and>
   js zero_retries \<and> android zero_retries \<and> ios zero_retries \<and>
   \<not> thrown (reached calm zero_retries 7) \<and>
   \<not> thrown (reached_e2e (failing Mocha) zero_retries) \<and>
   attempts_of NpmInstallFlowBin (runs (fst (run calm zero_retries))) = 1 \<and>
   attempts_of RnInit (runs (fst (run calm zero_retries))) = 1 \<and>
   attempts_of NpmInstall (runs (fst (run calm zero_retries))) = 1 \<and>
   attempts_of YarnAddAppium (runs (fst (run calm zero_retries))) = 1 \<and>
   attempts_of Mocha (runs (fst (run calm zero_retries))) = 1 \<and>
   attempts_of (xcodebuild zero_retries) (runs (fst (run calm zero_retries))) = 1 \<and>
   runs (fst (run (failing Mocha) zero_retries)) =
     [(Mktemp, 0), (YarnGlobalAddCli, 0), (GradlewInstallArchives, 0), (NpmInstallFlowBin, 0),
      (NpmPack, 0), (RnInit, 0), (NpmInstallPackage, 0), (NpmInstall, 0), (YarnAddAppium, 0),
      (GradlewCopyDeps, 0), (RmKeystore, 0), (Keytool, 0), (RnRunAndroid, 0), (Sleep15, 0),
      (Mocha, 1), (Kill9 130, 0), (LsofKill8081, 0), (Kill9 126, 0)] \<and>
   attempts_of Mocha (runs (fst (run (failing Mocha) zero_retries))) = 1 \<and>
   snd (run (failing Mocha) zero_retries) = Uncaught"
proof -
  have h: "retries zero_retries = None \<or> retries zero_retries = Some 0"
    by (simp add: zero_retries_def)
  have f: "js zero_retries" "android zero_retries" "ios zero_retries"
    by (simp_all add: zero_retries_def no_flags_def)
  have r7: "\<not> thrown (reached calm zero_retries 7)"
    by (simp add: reached_def eval_defs zero_retries_def)
  have r: "\<not> thrown (reached calm zero_retries 2)" "\<not> thrown (reached calm zero_retries 4)"
    "\<not> thrown (reached calm zero_retries 5)" "\<not> thrown (reached calm zero_retries 6)"
    "\<not> thrown (reached_e2e calm zero_retries)"
    by (simp_all add: reached_e2e_def reached_def eval_defs zero_retries_def)
  have m: "\<not> thrown (reached_e2e (failing Mocha) zero_retries)"
    by (simp add: reached_e2e_def reached_def eval_defs zero_retries_def)
  have t: "runs (fst (run (failing Mocha) zero_retries)) =
     [(Mktemp, 0), (YarnGlobalAddCli, 0), (GradlewInstallArchives, 0), (NpmInstallFlowBin, 0),
      (NpmPack, 0), (RnInit, 0), (NpmInstallPackage, 0), (NpmInstall, 0), (YarnAddAppium, 0),
      (GradlewCopyDeps, 0), (RmKeystore, 0), (Keytool, 0), (RnRunAndroid, 0), (Sleep15, 0),
      (Mocha, 1), (Kill9 130, 0), (LsofKill8081, 0), (Kill9 126, 0)]"
    by (simp add: eval_defs zero_retries_def)
  have u: "snd (run (failing Mocha) zero_retries) = Uncaught"
    by (simp add: eval_defs zero_retries_def)
  note c = falsy_retries_is_one_attempt [OF h, of calm]
  note d = falsy_retries_is_one_attempt [OF h, of "failing Mocha"]
  show ?thesis
    using h f r7 r m t u c d by blast
qed

subsection \<open>Finalization and exit status\<close>

text \<open>
  In every world and for all flags, whether the \<^verbatim>\<open>try\<close> block ends normally or by a
  thrown error, the history of the run is the history \<open>body\<close> of the \<^verbatim>\<open>try\<close> block followed
  by the events \<open>fin\<close> of the \<^verbatim>\<open>finally\<close> block, once. The \<^verbatim>\<open>try\<close> block runs no kill. The
  \<^verbatim>\<open>finally\<close> block runs nothing but kills and spawns nothing, and its kills are those owed
  to the values \<^verbatim>\<open>SERVER_PID\<close> and \<^verbatim>\<open>APPIUM_PID\<close> hold when the \<^verbatim>\<open>try\<close> block ends, which are
  what the most recent spawn of a packager and the most recent spawn of the appium server
  returned. Every identifier that is the target of a \<^verbatim>\<open>kill -9\<close> was returned by a spawn of
  the run. A packager spawned before the most recent one is not among the targets.
\<close>

lemma finally_kills_latest:
  "\<exists>body fin. body = trace (try_block w a (before_try w)) \<and> fst (run w a) = body @ fin \<and>
     kills body = [] \<and> work fin = [] \<and> spawns fin = [] \<and>
     kills fin = expected_kills (latest packager None body) (latest (\<lambda>p. p = Appium) None body) \<and>
     (\<forall>pid. Kill9 pid \<in> set (kills (fst (run w a))) \<longrightarrow>
        (\<exists>p. (p, Some pid) \<in> set (spawns (fst (run w a)))))"
proof -
  obtain k d fin where p:
    "trace (try_block w a (before_try w)) = Exec Mktemp k # d"
    "trace (script w a) = Exec Mktemp k # d @ fin"
    "fst ` set (runs d) \<subseteq> {c. \<not> cleanup c}"
    "map fst (runs fin) = expected_kills (latest packager None d) (latest (\<lambda>p. p = Appium) None d)"
    "spawns fin = []"
    by (rule script_parts [of w a]) blast
  let ?body = "Exec Mktemp k # d"
  have h: "latest K None ?body = latest K None d" for K
    by (simp add: latest_def)
  have kb: "kills ?body = []"
    using work_all [OF p(3)] by (simp add: kills_def cleanup_def)
  have kf: "kills fin =
      expected_kills (latest packager None ?body) (latest (\<lambda>p. p = Appium) None ?body)"
    using work_fin(2) [OF p(4)] by (simp add: h)
  have t: "fst (run w a) = ?body @ fin"
    by (simp add: run_def Let_def p(2))
  have tgt: "\<exists>q. (q, Some pid) \<in> set (spawns (fst (run w a)))"
    if "Kill9 pid \<in> set (kills (fst (run w a)))" for pid
  proof -
    have "kills (fst (run w a)) = kills ?body @ kills fin"
      unfolding t by (rule kills_append)
    with that have "Kill9 pid \<in> set (kills fin)"
      using kb by simp
    then have "latest packager None d = Some pid \<or> latest (\<lambda>p. p = Appium) None d = Some pid"
      unfolding kf h by (rule expected_kills_target)
    then obtain q where "(q, Some pid) \<in> set (spawns d)"
      using latest_spawned by blast
    then show ?thesis unfolding t by auto
  qed
  show ?thesis
    apply (rule exI [of _ ?body], rule exI [of _ fin])
    using p(1) t kb work_fin(1) [OF p(4)] p(5) kf tgt by simp
qed

text \<open>
  Claim C2, at the flags \<^verbatim>\<open>--android --tvos\<close>. In a world where every command succeeds
  and every spawn returns a fresh identifier, the run creates three handles: the appium
  server (125), the packager of the android branch (129) and the packager of the tvos
  branch (135). The \<^verbatim>\<open>finally\<close> block kills by identifier the packager whose identifier
  \<^verbatim>\<open>SERVER_PID\<close> holds at the end (135), sweeps port 8081 and kills the appium server: the
  packager 129, a handle that was created, is not the target of any \<^verbatim>\<open>kill -9\<close>. In the
  same world but with the spawn of the tvos branch returning a child without \<^verbatim>\<open>pid\<close>, the
  assignment of line 219 leaves \<^verbatim>\<open>SERVER_PID\<close> without an identifier: the \<^verbatim>\<open>finally\<close> block
  kills the appium server only, the packager 129 is not killed by identifier and the port
  is not swept, and the run ends with \<^verbatim>\<open>exit(0)\<close>.
\<close>

theorem created_packager_not_killed:
  "spawns (fst (run calm android_and_tvos)) =
     [(Appium, Some 125), (PackagerAndroid, Some 129), (PackagerIos, Some 135)] \<and>
   kills (fst (run calm android_and_tvos)) = [Kill9 135, LsofKill8081, Kill9 125] \<and>
   Kill9 129 \<notin> set (kills (fst (run calm android_and_tvos))) \<and>
   spawns (fst (run no_second_pid android_and_tvos)) =
     [(Appium, Some 125), (PackagerAndroid, Some 129), (PackagerIos, None)] \<and>
   kills (fst (run no_second_pid android_and_tvos)) = [Kill9 125] \<and>
   snd (run no_second_pid android_and_tvos) = Exited 0"
  by (simp add: end_defs stage_defs prim_defs tryExecNTimes_def numberOfRetries_def
      android_and_tvos_def no_second_pid_def no_flags_def calm_def kills_def cleanup_def Let_def)




subsection \<open>Dependency installation\<close>

lemma reached_failing_install:
  "reached (failing NpmInstall) three_retries 5 =
     init\<lparr>trace := [Exec Mktemp 0, Exec YarnGlobalAddCli 0, Exec NpmPack 0, Cd ''TEMP'',
      Echo [Lit ''Creating EndToEndTest React Native app''], Exec RnInit 0]\<rparr>"
  by (simp add: reached_def end_defs stage_defs prim_defs tryExecNTimes_3 numberOfRetries_def
      no_flags_def calm_def failing_def Let_def three_retries_def)

text \<open>
  The installation of the packaged artifact is neither retried nor checked. With
  \<^verbatim>\<open>--retries 3\<close>, in a world where \<^verbatim>\<open>npm install PACKAGE\<close> fails every time and every other
  command succeeds, the command is run once, \<^verbatim>\<open>npm install\<close> runs after it, and the run
  ends with \<^verbatim>\<open>exit(0)\<close>.
\<close>

theorem artifact_install_failure_ignored:
  "runs (fst (run (failing NpmInstallPackage) three_retries)) =
     [(Mktemp, 0), (YarnGlobalAddCli, 0), (NpmPack, 0), (RnInit, 0), (NpmInstallPackage, 1),
      (NpmInstall, 0)] \<and>
   snd (run (failing NpmInstallPackage) three_retries) = Exited 0"
  by (simp add: end_defs stage_defs prim_defs tryExecNTimes_3 numberOfRetries_def
  no_flags_def calm_def failing_def Let_def three_retries_def)

text \<open>
  Claim C5, as amended. When the stages before it have not failed, the dependency
  installation stage copies the two configuration files, runs \<^verbatim>\<open>npm install PACKAGE\<close> once,
  outside the Retrier and without reading its exit code \<open>k0\<close>, and then runs
  \<^verbatim>\<open>npm install\<close> through the Retrier with \<^verbatim>\<open>sleep 10s\<close> as recovery action: the history of
  the stage is exactly the one below, where \<open>ps\<close> holds the attempts before the last, each
  with an exit code that is not zero and followed by its sleep, fewer of them than the
  retry count, and \<open>code\<close> is the exit code of the last attempt. When that code is not
  zero, every attempt the retry count allows has been made, the two messages are printed
  and the run is over: the history of the run ends there (the \<^verbatim>\<open>finally\<close> block has no
  process to kill yet), the error is uncaught and the exit status is 1. When it is zero
  nothing is thrown and the script goes on with the per-platform branches.
\<close>

theorem dependency_installation:
  assumes "\<not> thrown (reached w a 5)"
  shows "\<exists>k0 ps code.
     trace (npm_install w a (reached w a 5)) =
       trace (reached w a 5) @
       [Cp ''ROOT/metro.config.js'' ''EndToEndTest/.'',
        Cp ''ROOT/rn-get-polyfills.js'' ''EndToEndTest/.'', Cd ''EndToEndTest'',
        Echo [Lit ''Installing React Native package''], Exec NpmInstallPackage k0,
        Echo [Lit ''Installing node_modules'']] @
       rounds NpmInstall (\<lambda>v. [Exec Sleep10 v]) ps @
       Exec NpmInstall code #
       (if code = 0 then []
        else [Echo [Lit ''Failed to execute npm install''],
              Echo [Lit ''Most common reason is npm registry connectivity, try again'']]) \<and>
     (\<forall>x\<in>set ps. fst x \<noteq> 0) \<and>
     int (length ps) < max 1 (numberOfRetries a) \<and>
     (code \<noteq> 0 \<longrightarrow>
        int (length ps) + 1 = max 1 (numberOfRetries a) \<and>
        run w a = (trace (npm_install w a (reached w a 5)), Uncaught) \<and>
        status (snd (run w a)) = 1) \<and>
     (code = 0 \<longrightarrow>
        \<not> thrown (npm_install w a (reached w a 5)) \<and>
        script w a =
          finally_block w
            (run_stages [android_tests w a, ios_tests w a, js_tests w a, succeed]
               (npm_install w a (reached w a 5))))"
proof -
  let ?s = "reached w a 5"
  let ?E = "\<lambda>v. [Exec Sleep10 v]"
  define s4 where "s4 = echo ''Installing React Native package'' (emit (Cd ''EndToEndTest'')
      (emit (Cp ''ROOT/rn-get-polyfills.js'' ''EndToEndTest/.'')
        (emit (Cp ''ROOT/metro.config.js'' ''EndToEndTest/.'') ?s)))"
  define k0 where "k0 = exec_code w (trace s4) NpmInstallPackage"
  define s0 where "s0 = echo ''Installing node_modules'' (exec' w NpmInstallPackage s4)"
  have rec: "\<forall>s::state. \<exists>v. (case Some (exec' w Sleep10) of None \<Rightarrow> s | Some rc \<Rightarrow> rc s) =
      s\<lparr>trace := trace s @ ?E v\<rparr>"
    using recover_sleep [of w] by simp
  from attempts_rounds [OF rec, of w NpmInstall "nat (numberOfRetries a - 1)" s0]
  obtain ps code where p:
    "attempts (exec w NpmInstall) (Some (exec' w Sleep10)) (nat (numberOfRetries a - 1)) s0 =
       (code, s0\<lparr>trace := trace s0 @ rounds NpmInstall ?E ps @ [Exec NpmInstall code]\<rparr>)"
    "\<forall>x\<in>set ps. fst x \<noteq> 0"
    "length ps \<le> nat (numberOfRetries a - 1)"
    "code \<noteq> 0 \<longrightarrow> length ps = nat (numberOfRetries a - 1)"
    by (elim exE conjE)
  from p(3) have len: "int (length ps) < max 1 (numberOfRetries a)"
    by linarith
  have exh: "int (length ps) + 1 = max 1 (numberOfRetries a)" if "code \<noteq> 0"
    using p(4) that by linarith
  define s' where "s' = s0\<lparr>trace := trace s0 @ rounds NpmInstall ?E ps @ [Exec NpmInstall code]\<rparr>"
  have eq: "npm_install w a ?s =
      (if code \<noteq> 0 then
         fail (echo ''Most common reason is npm registry connectivity, try again''
                (echo ''Failed to execute npm install'' s'))
       else s')"
    unfolding npm_install_def Let_def s4_def [symmetric] s0_def [symmetric] tryExecNTimes_def
      p(1) s'_def by simp
  have t0: "trace s0 = trace ?s @
       [Cp ''ROOT/metro.config.js'' ''EndToEndTest/.'',
        Cp ''ROOT/rn-get-polyfills.js'' ''EndToEndTest/.'', Cd ''EndToEndTest'',
        Echo [Lit ''Installing React Native package''], Exec NpmInstallPackage k0,
        Echo [Lit ''Installing node_modules'']]"
    unfolding s0_def by (simp add: prim_defs Let_def k0_def) (simp add: s4_def prim_defs)
  have f0: "SERVER_PID s' = None" "APPIUM_PID s' = None" "thrown s' = thrown ?s"
    unfolding s'_def s0_def s4_def by (simp_all add: prim_defs Let_def reached_5_pids)
  have tr: "trace (npm_install w a ?s) = trace ?s @
       [Cp ''ROOT/metro.config.js'' ''EndToEndTest/.'',
        Cp ''ROOT/rn-get-polyfills.js'' ''EndToEndTest/.'', Cd ''EndToEndTest'',
        Echo [Lit ''Installing React Native package''], Exec NpmInstallPackage k0,
        Echo [Lit ''Installing node_modules'']] @
       rounds NpmInstall ?E ps @
       Exec NpmInstall code #
       (if code = 0 then []
        else [Echo [Lit ''Failed to execute npm install''],
              Echo [Lit ''Most common reason is npm registry connectivity, try again'']])"
    unfolding eq by (simp add: s'_def t0 prim_defs)
  have d5: "drop 5 (stages w a) =
      [npm_install w a, android_tests w a, ios_tests w a, js_tests w a, succeed]"
    by (simp add: stages_def)
  have sc: "script w a = finally_block w
      (run_stages [android_tests w a, ios_tests w a, js_tests w a, succeed] (npm_install w a ?s))"
    unfolding script_reached [of w a 5] d5 using assms by simp
  have bad: "int (length ps) + 1 = max 1 (numberOfRetries a) \<and>
      run w a = (trace (npm_install w a ?s), Uncaught) \<and> status (snd (run w a)) = 1"
    if "code \<noteq> 0"
  proof -
    have th: "thrown (npm_install w a ?s)" "SERVER_PID (npm_install w a ?s) = None"
      "APPIUM_PID (npm_install w a ?s) = None"
      unfolding eq using that f0 by (simp_all add: prim_defs)
    have "script w a = npm_install w a ?s"
      unfolding sc using th by (simp add: finally_no_handles)
    then show ?thesis
      using th(1) exh [OF that] by (simp add: run_def Let_def finish_def status_def)
  qed
  have good: "\<not> thrown (npm_install w a ?s)" if "code = 0"
    unfolding eq using that f0(3) assms by simp
  have c4: "code \<noteq> 0 \<longrightarrow>
        int (length ps) + 1 = max 1 (numberOfRetries a) \<and>
        run w a = (trace (npm_install w a ?s), Uncaught) \<and> status (snd (run w a)) = 1"
    by (rule impI) (rule bad)
  have c5: "code = 0 \<longrightarrow>
        \<not> thrown (npm_install w a ?s) \<and>
        script w a =
          finally_block w
            (run_stages [android_tests w a, ios_tests w a, js_tests w a, succeed]
               (npm_install w a ?s))"
    using good sc by (intro impI conjI)
  show ?thesis
    by (rule exI [of _ k0], rule exI [of _ ps], rule exI [of _ code])
       (rule conjI [OF tr conjI [OF p(2) conjI [OF len conjI [OF c4 c5]]]])
qed

theorem dependency_installation_witness:
  "\<not> thrown (reached (failing NpmInstall) three_retries 5) \<and>
   run (failing NpmInstall) three_retries =
     ([Exec Mktemp 0, Exec YarnGlobalAddCli 0, Exec NpmPack 0, Cd ''TEMP'',
       Echo [Lit ''Creating EndToEndTest React Native app''], Exec RnInit 0,
       Cp ''ROOT/metro.config.js'' ''EndToEndTest/.'',
       Cp ''ROOT/rn-get-polyfills.js'' ''EndToEndTest/.'', Cd ''EndToEndTest'',
       Echo [Lit ''Installing React Native package''], Exec NpmInstallPackage 0,
       Echo [Lit ''Installing node_modules''],
       Exec NpmInstall 1, Exec Sleep10 0, Exec NpmInstall 1, Exec Sleep10 0, Exec NpmInstall 1,
       Echo [Lit ''Failed to execute npm install''],
       Echo [Lit ''Most common reason is npm registry connectivity, try again'']],
      Uncaught) \<and>
   (\<exists>k0 ps code.
     trace (npm_install (failing NpmInstall) three_retries
              (reached (failing NpmInstall) three_retries 5)) =
       trace (reached (failing NpmInstall) three_retries 5) @
       [Cp ''ROOT/metro.config.js'' ''EndToEndTest/.'',
        Cp ''ROOT/rn-get-polyfills.js'' ''EndToEndTest/.'', Cd ''EndToEndTest'',
        Echo [Lit ''Installing React Native package''], Exec NpmInstallPackage k0,
        Echo [Lit ''Installing node_modules'']] @
       rounds NpmInstall (\<lambda>v. [Exec Sleep10 v]) ps @
       Exec NpmInstall code #
       (if code = 0 then []
        else [Echo [Lit ''Failed to execute npm install''],
              Echo [Lit ''Most common reason is npm registry connectivity, try again'']]) \<and>
     (\<forall>x\<in>set ps. fst x \<noteq> 0) \<and>
     int (length ps) < max 1 (numberOfRetries three_retries) \<and>
     (code \<noteq> 0 \<longrightarrow>
        int (length ps) + 1 = max 1 (numberOfRetries three_retries) \<and>
        run (failing NpmInstall) three_retries =
          (trace (npm_install (failing NpmInstall) three_retries
                    (reached (failing NpmInstall) three_retries 5)), Uncaught) \<and>
        status (snd (run (failing NpmInstall) three_retries)) = 1) \<and>
     (code = 0 \<longrightarrow>
        \<not> thrown (npm_install (failing NpmInstall) three_retries
                    (reached (failing NpmInstall) three_retries 5)) \<and>
        script (failing NpmInstall) three_retries =
          finally_block (failing NpmInstall)
            (run_stages [android_tests (failing NpmInstall) three_retries,
                         ios_tests (failing NpmInstall) three_retries,
                         js_tests (failing NpmInstall) three_retries, succeed]
               (npm_install (failing NpmInstall) three_retries
                  (reached (failing NpmInstall) three_retries 5)))))"
proof -
  have h: "\<not> thrown (reached (failing NpmInstall) three_retries 5)"
    by (simp add: reached_failing_install init_def)
  have e: "run (failing NpmInstall) three_retries =
     ([Exec Mktemp 0, Exec YarnGlobalAddCli 0, Exec NpmPack 0, Cd ''TEMP'',
       Echo [Lit ''Creating EndToEndTest React Native app''], Exec RnInit 0,
       Cp ''ROOT/metro.config.js'' ''EndToEndTest/.'',
       Cp ''ROOT/rn-get-polyfills.js'' ''EndToEndTest/.'', Cd ''EndToEndTest'',
       Echo [Lit ''Installing React Native package''], Exec NpmInstallPackage 0,
       Echo [Lit ''Installing node_modules''],
       Exec NpmInstall 1, Exec Sleep10 0, Exec NpmInstall 1, Exec Sleep10 0, Exec NpmInstall 1,
       Echo [Lit ''Failed to execute npm install''],
       Echo [Lit ''Most common reason is npm registry connectivity, try again'']],
      Uncaught)"
    by (simp add: end_defs stage_defs prim_defs tryExecNTimes_3 numberOfRetries_def
      no_flags_def calm_def failing_def Let_def three_retries_def)
  show ?thesis
    by (rule conjI [OF h conjI [OF e dependency_installation [OF h]]])
qed

subsection \<open>The android branch\<close>







subsection \<open>The ios/tvos branch\<close>

lemma take_7_stages: "take 7 (stages w a) = early_stages w a"
  by (simp add: stages_def early_stages_def)

lemma ios_phase:
  assumes "ios a \<or> tvos a"
  obtains d2 where
    "trace (ios_tests w a s) = trace s @ d2"
    "fst ` set (runs d2) \<subseteq> {Sleep15, CurlWarmup, PodInstall, Sleep10, xcodebuild a}"
    "xcodebuild a \<in> fst ` set (runs d2)"
    "\<exists>pid. spawns d2 = [(PackagerIos, pid)]"
proof -
  from ios_tests_fields [OF assms, of w s] obtain pre code pid t1 t2 where f:
    "trace (ios_tests w a s) = trace s @ t1 @ pre @ Exec (xcodebuild a) code # t2"
    "set pre \<subseteq> range (Exec (xcodebuild a)) \<union> noise"
    "spawns t1 = [(PackagerIos, pid)]" "map fst (runs t1) = [Sleep15, CurlWarmup, PodInstall]"
    "spawns t2 = []" "runs t2 = []"
    by metis
  note n = noise_runs [OF f(2)]
  have r1: "fst ` set (runs t1) = {Sleep15, CurlWarmup, PodInstall}"
    using f(4) by (metis list.set_map list.simps(15) empty_set)
  show thesis
  proof (rule that [of "t1 @ pre @ Exec (xcodebuild a) code # t2"])
    show "trace (ios_tests w a s) = trace s @ t1 @ pre @ Exec (xcodebuild a) code # t2"
      by (fact f(1))
    show "fst ` set (runs (t1 @ pre @ Exec (xcodebuild a) code # t2))
            \<subseteq> {Sleep15, CurlWarmup, PodInstall, Sleep10, xcodebuild a}"
      using n(1) r1 f(6) by (auto simp: image_Un)
    show "xcodebuild a \<in> fst ` set (runs (t1 @ pre @ Exec (xcodebuild a) code # t2))"
      by (simp add: image_Un)
    show "\<exists>pid. spawns (t1 @ pre @ Exec (xcodebuild a) code # t2) = [(PackagerIos, pid)]"
      using n(2) f(3,5) by simp
  qed
qed

lemma script_phases:
  assumes "ios a \<or> tvos a"
  obtains k d1 d2 d3 fin where
    "trace (script w a) = Exec Mktemp k # d1 @ d2 @ d3 @ fin"
    "fst ` set (runs d1) \<subseteq> early_cmds" "fst ` set (spawns d1) \<subseteq> {Appium, PackagerAndroid}"
    "fst ` set (runs d3) \<subseteq> early_cmds" "spawns d3 = []"
    "fst ` set (runs fin) \<subseteq> Collect cleanup" "spawns fin = []"
    "thrown (reached w a 7) \<longrightarrow> d2 = []"
    "\<not> thrown (reached w a 7) \<longrightarrow>
       fst ` set (runs d2) \<subseteq> {Sleep15, CurlWarmup, PodInstall, Sleep10, xcodebuild a} \<and>
       xcodebuild a \<in> fst ` set (runs d2) \<and> (\<exists>pid. spawns d2 = [(PackagerIos, pid)])"
proof -
  let ?s0 = "before_try w"
  let ?s1 = "reached w a 7"
  let ?s2 = "run_stages [ios_tests w a] ?s1"
  let ?s3 = "run_stages [js_tests w a, succeed] ?s2"
  define k where "k = exec_code w [] Mktemp"
  have s0: "trace ?s0 = [Exec Mktemp k]" "\<not> thrown ?s0"
    by (simp_all add: before_try_def init_def prim_defs Let_def k_def)
  have r7: "?s1 = run_stages (early_stages w a) ?s0"
    by (simp add: reached_def take_7_stages)
  from early_stages_outcome [OF s0(2), of w a] obtain d1 where d1:
    "trace ?s1 = trace ?s0 @ d1" "fst ` set (runs d1) \<subseteq> early_cmds"
    "fst ` set (spawns d1) \<subseteq> {Appium, PackagerAndroid}"
    unfolding r7 by (rule outcomeE)
  obtain d2 where d2: "trace ?s2 = trace ?s1 @ d2" "thrown ?s1 \<longrightarrow> d2 = []"
    "\<not> thrown ?s1 \<longrightarrow>
       fst ` set (runs d2) \<subseteq> {Sleep15, CurlWarmup, PodInstall, Sleep10, xcodebuild a} \<and>
       xcodebuild a \<in> fst ` set (runs d2) \<and> (\<exists>pid. spawns d2 = [(PackagerIos, pid)])"
  proof (cases "thrown ?s1")
    case True
    then show ?thesis using that [of "[]"] by simp
  next
    case False
    from ios_phase [OF assms, of w ?s1] obtain d where d:
      "trace (ios_tests w a ?s1) = trace ?s1 @ d"
      "fst ` set (runs d) \<subseteq> {Sleep15, CurlWarmup, PodInstall, Sleep10, xcodebuild a}"
      "xcodebuild a \<in> fst ` set (runs d)"
      "\<exists>pid. spawns d = [(PackagerIos, pid)]"
      by metis
    show ?thesis
      using that [of d] d False by simp
  qed
  obtain d3 where d3: "trace ?s3 = trace ?s2 @ d3" "fst ` set (runs d3) \<subseteq> early_cmds"
    "spawns d3 = []"
  proof (cases "thrown ?s2")
    case True
    then show ?thesis using that [of "[]"] by simp
  next
    case False
    from late_stages_outcome [OF False, of w a] obtain d where
      "trace ?s3 = trace ?s2 @ d" "fst ` set (runs d) \<subseteq> early_cmds"
      "fst ` set (spawns d) \<subseteq> {}"
      by (rule outcomeE)
    then show ?thesis using that [of d] by simp
  qed
  have tb: "try_block w a ?s0 = ?s3"
    by (simp only: try_block_def stages_split run_stages_append r7)
  obtain fin where fin: "trace (finally_block w ?s3) = trace ?s3 @ fin"
    "map fst (runs fin) = expected_kills (SERVER_PID ?s3) (APPIUM_PID ?s3)"
    "spawns fin = []"
    by (rule finally_fields [of w ?s3]) blast
  have "set (map fst (runs fin)) \<subseteq> Collect cleanup"
    unfolding fin(2) by (auto simp: expected_kills_def cleanup_def)
  then have fc: "fst ` set (runs fin) \<subseteq> Collect cleanup" by simp
  have tr: "trace (script w a) = Exec Mktemp k # d1 @ d2 @ d3 @ fin"
    unfolding script_def tb fin(1) d3(1) d2(1) d1(1) s0(1) by simp
  from tr d1(2,3) d3(2,3) fc fin(3) d2(2,3) show thesis by (rule that)
qed

lemma reached_ios_and_tvos:
  "reached calm ios_and_tvos 7 =
     init\<lparr>trace := [Exec Mktemp 0, Exec YarnGlobalAddCli 0, Exec NpmPack 0, Cd ''TEMP'',
       Echo [Lit ''Creating EndToEndTest React Native app''], Exec RnInit 0,
       Cp ''ROOT/metro.config.js'' ''EndToEndTest/.'',
       Cp ''ROOT/rn-get-polyfills.js'' ''EndToEndTest/.'', Cd ''EndToEndTest'',
       Echo [Lit ''Installing React Native package''], Exec NpmInstallPackage 0,
       Echo [Lit ''Installing node_modules''], Exec NpmInstall 0]\<rparr>"
  by (simp add: reached_def eval_defs ios_and_tvos_def)

text \<open>
  Claim C10. When \<^verbatim>\<open>--ios\<close> and \<^verbatim>\<open>--tvos\<close> are both set, in every world: the packager of
  the ios/tvos branch is spawned at most once in the run, so the branch is not entered
  twice; \<^verbatim>\<open>iosTestType\<close> is \<^verbatim>\<open>tvOS\<close>; and every \<^verbatim>\<open>xcodebuild\<close> command of the run carries the
  tvOS destination, the scheme \<^verbatim>\<open>EndToEndTest-tvOS\<close>, the SDK \<^verbatim>\<open>appletvsimulator\<close> and the
  tvOS report directory, so no test run with the iOS parameters occurs. When the stages
  before the branch have not failed, the branch is entered exactly once and the tvOS test
  command is run.
\<close>

theorem tvos_takes_precedence:
  assumes "ios a" and "tvos a"
  shows "length (filter (\<lambda>x. fst x = PackagerIos) (spawns (fst (run w a)))) \<le> 1 \<and>
         (\<forall>c\<in>set (map fst (runs (fst (run w a)))). is_xcodebuild c \<longrightarrow> c = xcodebuild_tvOS) \<and>
         iosTestType a = ''tvOS'' \<and>
         (\<not> thrown (reached w a 7) \<longrightarrow>
            length (filter (\<lambda>x. fst x = PackagerIos) (spawns (fst (run w a)))) = 1 \<and>
            xcodebuild_tvOS \<in> set (map fst (runs (fst (run w a)))))"
proof -
  have it: "ios a \<or> tvos a" using assms by simp
  have xc: "xcodebuild a = xcodebuild_tvOS" "iosTestType a = ''tvOS''"
    using assms(2) by (simp_all add: xcodebuild_def xcodebuild_tvOS_def iosTestType_def)
  obtain k d1 d2 d3 fin where p:
    "trace (script w a) = Exec Mktemp k # d1 @ d2 @ d3 @ fin"
    "fst ` set (runs d1) \<subseteq> early_cmds" "fst ` set (spawns d1) \<subseteq> {Appium, PackagerAndroid}"
    "fst ` set (runs d3) \<subseteq> early_cmds" "spawns d3 = []"
    "fst ` set (runs fin) \<subseteq> Collect cleanup" "spawns fin = []"
    "thrown (reached w a 7) \<longrightarrow> d2 = []"
    "\<not> thrown (reached w a 7) \<longrightarrow>
       fst ` set (runs d2) \<subseteq> {Sleep15, CurlWarmup, PodInstall, Sleep10, xcodebuild a} \<and>
       xcodebuild a \<in> fst ` set (runs d2) \<and> (\<exists>pid. spawns d2 = [(PackagerIos, pid)])"
    by (rule script_phases [OF it, of w])
  have t: "fst (run w a) = Exec Mktemp k # d1 @ d2 @ d3 @ fin"
    by (simp add: run_def Let_def p(1))
  have f1: "filter (\<lambda>x. fst x = PackagerIos) (spawns d1) = []"
    using p(3) by (auto simp: filter_empty_conv)
  have sp: "filter (\<lambda>x. fst x = PackagerIos) (spawns (fst (run w a))) =
      filter (\<lambda>x. fst x = PackagerIos) (spawns d2)"
    by (simp add: t f1 p(5,7))
  have x1: "c \<in> fst ` set (runs d1) \<Longrightarrow> \<not> is_xcodebuild c" for c
    using p(2) by (auto simp: early_cmds_def)
  have x3: "c \<in> fst ` set (runs d3) \<Longrightarrow> \<not> is_xcodebuild c" for c
    using p(4) by (auto simp: early_cmds_def)
  have xf: "c \<in> fst ` set (runs fin) \<Longrightarrow> \<not> is_xcodebuild c" for c
    using p(6) by (auto simp: cleanup_def is_xcodebuild_def split: cmd.splits)
  have x2: "c \<in> fst ` set (runs d2) \<Longrightarrow> is_xcodebuild c \<Longrightarrow> c = xcodebuild_tvOS" for c
  proof (cases "thrown (reached w a 7)")
    case True
    assume "c \<in> fst ` set (runs d2)"
    with p(8) True show ?thesis by simp
  next
    case False
    assume c: "c \<in> fst ` set (runs d2)" "is_xcodebuild c"
    from p(9) False
    have "fst ` set (runs d2) \<subseteq> {Sleep15, CurlWarmup, PodInstall, Sleep10, xcodebuild a}"
      by simp
    with c(1) have "c \<in> {Sleep15, CurlWarmup, PodInstall, Sleep10, xcodebuild a}" by blast
    with c(2) show ?thesis by (auto simp: is_xcodebuild_def xc(1))
  qed
  have cs: "set (map fst (runs (fst (run w a)))) =
      insert Mktemp (fst ` set (runs d1) \<union> fst ` set (runs d2) \<union> fst ` set (runs d3)
        \<union> fst ` set (runs fin))"
    by (simp add: t image_Un Un_assoc)
  have c1: "length (filter (\<lambda>x. fst x = PackagerIos) (spawns (fst (run w a)))) \<le> 1"
  proof (cases "thrown (reached w a 7)")
    case True
    with p(8) show ?thesis by (simp add: sp)
  next
    case False
    with p(9) obtain pid where "spawns d2 = [(PackagerIos, pid)]" by blast
    then show ?thesis by (simp add: sp)
  qed
  have c2: "\<forall>c\<in>set (map fst (runs (fst (run w a)))). is_xcodebuild c \<longrightarrow> c = xcodebuild_tvOS"
  proof (intro ballI impI)
    fix c
    assume c: "c \<in> set (map fst (runs (fst (run w a))))" and x: "is_xcodebuild c"
    have mk: "\<not> is_xcodebuild Mktemp" by (simp add: is_xcodebuild_def)
    from c consider "c = Mktemp" | "c \<in> fst ` set (runs d1)" | "c \<in> fst ` set (runs d2)"
      | "c \<in> fst ` set (runs d3)" | "c \<in> fst ` set (runs fin)"
      unfolding cs by blast
    then show "c = xcodebuild_tvOS"
    proof cases
      case 1
      with x mk show ?thesis by simp
    next
      case 2
      with x x1 show ?thesis by blast
    next
      case 3
      with x x2 show ?thesis by blast
    next
      case 4
      with x x3 show ?thesis by blast
    next
      case 5
      with x xf show ?thesis by blast
    qed
  qed
  have c4: "\<not> thrown (reached w a 7) \<longrightarrow>
            length (filter (\<lambda>x. fst x = PackagerIos) (spawns (fst (run w a)))) = 1 \<and>
            xcodebuild_tvOS \<in> set (map fst (runs (fst (run w a))))"
  proof
    assume nt: "\<not> thrown (reached w a 7)"
    with p(9) obtain pid where s2: "spawns d2 = [(PackagerIos, pid)]"
      and x: "xcodebuild a \<in> fst ` set (runs d2)" by blast
    have "length (filter (\<lambda>x. fst x = PackagerIos) (spawns (fst (run w a)))) = 1"
      by (simp add: sp s2)
    moreover have "xcodebuild_tvOS \<in> set (map fst (runs (fst (run w a))))"
      unfolding cs using x xc(1) by simp
    ultimately show "length (filter (\<lambda>x. fst x = PackagerIos) (spawns (fst (run w a)))) = 1 \<and>
            xcodebuild_tvOS \<in> set (map fst (runs (fst (run w a))))" ..
  qed
  show ?thesis
    by (rule conjI [OF c1 conjI [OF c2 conjI [OF xc(2) c4]]])
qed

theorem tvos_takes_precedence_witness:
  "ios ios_and_tvos \<and> tvos ios_and_tvos \<and>
   \<not> thrown (reached calm ios_and_tvos 7) \<and>
   runs (fst (run calm ios_and_tvos)) =
     [(Mktemp, 0), (YarnGlobalAddCli, 0), (NpmPack, 0), (RnInit, 0), (NpmInstallPackage, 0),
      (NpmInstall, 0), (Sleep15, 0), (CurlWarmup, 0), (PodInstall, 0), (xcodebuild_tvOS, 0),
      (Kill9 115, 0), (LsofKill8081, 0)] \<and>
   iosTestType ios_and_tvos = ''tvOS'' \<and>
   length (filter (\<lambda>x. fst x = PackagerIos) (spawns (fst (run calm ios_and_tvos)))) = 1 \<and>
   xcodebuild_tvOS \<in> set (map fst (runs (fst (run calm ios_and_tvos))))"
proof -
  have h1: "ios ios_and_tvos" and h2: "tvos ios_and_tvos"
    by (simp_all add: ios_and_tvos_def no_flags_def)
  have h3: "\<not> thrown (reached calm ios_and_tvos 7)"
    by (simp add: reached_ios_and_tvos init_def)
  have r: "runs (fst (run calm ios_and_tvos)) =
     [(Mktemp, 0), (YarnGlobalAddCli, 0), (NpmPack, 0), (RnInit, 0), (NpmInstallPackage, 0),
      (NpmInstall, 0), (Sleep15, 0), (CurlWarmup, 0), (PodInstall, 0), (xcodebuild_tvOS, 0),
      (Kill9 115, 0), (LsofKill8081, 0)]"
    by (simp add: eval_defs ios_and_tvos_def xcodebuild_tvOS_def)
  note t = tvos_takes_precedence [OF h1 h2, of calm]
  from t have ty: "iosTestType ios_and_tvos = ''tvOS''" by (elim conjE)
  from t h3 have once:
    "length (filter (\<lambda>x. fst x = PackagerIos) (spawns (fst (run calm ios_and_tvos)))) = 1 \<and>
     xcodebuild_tvOS \<in> set (map fst (runs (fst (run calm ios_and_tvos))))"
    by (elim conjE) (erule (1) impE)
  show ?thesis
    by (rule conjI [OF h1 conjI [OF h2 conjI [OF h3 conjI [OF r conjI [OF ty once]]]]])
qed

end
